theory Spec2Isabelle
  imports Complex_Main
begin

section \<open>Python values and errors\<close>

text \<open>
  The four utilities are Python scripts. Python's \<open>int\<close> is \<open>int\<close>. A Python
  \<open>float\<close> is an IEEE 754 double: it is given here by the real number it denotes, and the
  float operations of the chunk splitter round their exact result to the nearest double,
  overflow to an infinity, and raise \<open>OverflowError\<close> where Python does. A \<open>str\<close> is a
  list of characters, one \<open>char\<close> for each code point below 256. A raised exception is a
  value of type \<open>error\<close>, returned on the left of a sum.
\<close>

datatype error =
    FileNotFoundError
  | CouldntDecodeError
  | CouldntEncodeError
  | ZeroDivisionError
  | ValueError
  | TypeError
  | OverflowError
  | MemoryError

text \<open>
  The values the scripts handle. \<open>chunk_size\<close> is declared \<open>int\<close> by
  \<open>split_file_by_size\<close>, and the command line hands it over as a \<open>str\<close>: both
  are values the function receives.
\<close>

datatype pyval = PInt int | PStr string | PFloat real | PNone

subsection \<open>Floats\<close>

text \<open>
  Rounding a real number to an integer, a tie going to the even neighbour.
\<close>

definition round_half_even :: "real \<Rightarrow> int" where
  "round_half_even y =
     (let f = \<lfloor>y\<rfloor>; r = y - real_of_int f
      in if r < 1 / 2 then f else if 1 / 2 < r then f + 1 else if even f then f else f + 1)"

text \<open>
  A double has 53 significant bits and a binary exponent from \<open>-1022\<close> up; the
  numbers below \<open>2 powr (-1022)\<close> are the subnormal ones, which share the exponent
  \<open>-1022\<close>. \<open>ulp x\<close> is the distance between two neighbouring doubles at the
  magnitude of \<open>x\<close>, and \<open>round_double x\<close> is the multiple of it nearest to \<open>x\<close>, a
  tie going to the even multiple: the double nearest to \<open>x\<close> when the exponent has no
  upper bound. The lemmas \<open>round_double_eval_pow\<close>, \<open>round_double_eval_subnormal\<close>
  and \<open>round_double_dyadic\<close> below compute it.
\<close>

definition exponent :: "real \<Rightarrow> int" where
  "exponent x = max \<lfloor>log 2 \<bar>x\<bar>\<rfloor> (- 1022)"

definition ulp :: "real \<Rightarrow> real" where
  "ulp x = 2 powr real_of_int (exponent x - 52)"

definition round_double :: "real \<Rightarrow> real" where
  "round_double x = (if x = 0 then 0 else real_of_int (round_half_even (x / ulp x)) * ulp x)"

text \<open>
  The value of a float expression: a finite double or an infinity. \<open>to_double x\<close> is the
  float that a float operation with the exact result \<open>x\<close> returns: the rounded value, and
  an infinity when that lies beyond the largest double, that is when its magnitude reaches
  \<open>2 ^ 1024\<close>.
\<close>

datatype pyfloat = Fin real | PosInf | NegInf

definition to_double :: "real \<Rightarrow> pyfloat" where
  "to_double x =
     (let y = round_double x
      in if 2 ^ 1024 \<le> y then PosInf else if y \<le> - (2 ^ 1024) then NegInf else Fin y)"

text \<open>
  \<open>float(i)\<close> of an \<open>int\<close>, which a float operation applies to an \<open>int\<close> operand: the
  nearest double, and \<open>OverflowError\<close> when there is none.
\<close>

definition float_of_int :: "int \<Rightarrow> error + real" where
  "float_of_int i =
     (case to_double (real_of_int i) of Fin y \<Rightarrow> Inr y | PosInf \<Rightarrow> Inl OverflowError
      | NegInf \<Rightarrow> Inl OverflowError)"

text \<open>
  True division \<open>a / b\<close> of two \<open>int\<close>s: the double nearest to the quotient; a zero
  divisor raises, and so does a quotient beyond the range of a double.
\<close>

definition int_truediv :: "int \<Rightarrow> int \<Rightarrow> error + real" where
  "int_truediv a b =
     (if b = 0 then Inl ZeroDivisionError
      else case to_double (real_of_int a / real_of_int b) of
             Fin y \<Rightarrow> Inr y | PosInf \<Rightarrow> Inl OverflowError | NegInf \<Rightarrow> Inl OverflowError)"

text \<open>The product \<open>a * b\<close> of two finite floats.\<close>

definition float_mul :: "real \<Rightarrow> real \<Rightarrow> pyfloat" where
  "float_mul a b = to_double (a * b)"

text \<open>
  True division \<open>a / b\<close> of a float by a finite float: a zero divisor raises, and an
  infinity divided by a finite number is an infinity.
\<close>

definition float_truediv :: "pyfloat \<Rightarrow> real \<Rightarrow> error + pyfloat" where
  "float_truediv a b =
     (if b = 0 then Inl ZeroDivisionError
      else Inr (case a of
                  Fin x \<Rightarrow> to_double (x / b)
                | PosInf \<Rightarrow> if 0 < b then PosInf else NegInf
                | NegInf \<Rightarrow> if 0 < b then NegInf else PosInf))"

text \<open>\<open>math.ceil(a)\<close>: an \<open>int\<close>, and \<open>OverflowError\<close> for an infinity.\<close>

definition py_ceil :: "pyfloat \<Rightarrow> error + int" where
  "py_ceil a = (case a of Fin x \<Rightarrow> Inr \<lceil>x\<rceil> | PosInf \<Rightarrow> Inl OverflowError
                | NegInf \<Rightarrow> Inl OverflowError)"

subsection \<open>The conversion \<open>int(x)\<close>\<close>

definition is_digit :: "char \<Rightarrow> bool" where
  "is_digit c = (c \<in> set ''0123456789'')"

definition digit_val :: "char \<Rightarrow> nat" where
  "digit_val c = of_char c - 48"

text \<open>
  \<open>int(s)\<close> of a string reads a decimal numeral: optional blanks, an optional sign,
  digits. Among the code points below 256 the decimal digits are \<open>0\<close> to \<open>9\<close>, and the
  blanks that \<open>int\<close> skips on both sides of a numeral are tab to carriage return (9 to
  13), the space (32), the next-line control (133) and the no-break space (160).
\<close>

definition is_space :: "char \<Rightarrow> bool" where
  "is_space c = (let k = (of_char c :: nat) in (9 \<le> k \<and> k \<le> 13) \<or> k = 32 \<or> k = 133 \<or> k = 160)"

definition strip :: "string \<Rightarrow> string" where
  "strip s = rev (dropWhile is_space (rev (dropWhile is_space s)))"

text \<open>
  The digits of a numeral, most significant first; a single underscore may stand between
  two digits. \<open>acc\<close> is the value read so far.
\<close>

fun digits_value :: "nat \<Rightarrow> string \<Rightarrow> nat option" where
  "digits_value acc [] = Some acc"
| "digits_value acc (c # cs) =
     (if is_digit c then digits_value (10 * acc + digit_val c) cs
      else if c = CHR ''_'' \<and> cs \<noteq> [] \<and> is_digit (hd cs) then digits_value acc cs
      else None)"

text \<open>
  The interpreter limits the number of digits of a numeral that \<open>int\<close> converts:
  \<open>int_max_str_digits\<close> is the value of \<open>sys.get_int_max_str_digits()\<close>, 4300
  unless configured otherwise, 0 for no limit, and 0 also stands for an interpreter that
  has no such limit. A numeral of more than 640 digits that exceeds a limit in force is
  refused with \<open>ValueError\<close>, like every string that is no numeral. Underscores and the
  sign do not count as digits. \<open>max_str_length\<close> is the length of the longest string
  that the memory of the interpreter holds.
\<close>

record interpreter =
  int_max_str_digits :: nat
  max_str_length :: nat

definition unsigned_of_str :: "interpreter \<Rightarrow> string \<Rightarrow> error + int" where
  "unsigned_of_str py s =
     (if s = [] \<or> \<not> is_digit (hd s) then Inl ValueError
      else case digits_value 0 s of
             None \<Rightarrow> Inl ValueError
           | Some n \<Rightarrow>
               (let digits = length (filter is_digit s)
                in if 0 < int_max_str_digits py \<and> 640 < digits \<and> int_max_str_digits py < digits
                   then Inl ValueError else Inr (int n)))"

definition int_of_str :: "interpreter \<Rightarrow> string \<Rightarrow> error + int" where
  "int_of_str py s =
     (case strip s of
        [] \<Rightarrow> Inl ValueError
      | c # cs \<Rightarrow>
          if c = CHR ''-'' then
            (case unsigned_of_str py cs of Inl e \<Rightarrow> Inl e | Inr n \<Rightarrow> Inr (- n))
          else if c = CHR ''+'' then unsigned_of_str py cs
          else unsigned_of_str py (c # cs))"

text \<open>The natural number that a string of decimal digits denotes.\<close>

definition digits_number :: "string \<Rightarrow> nat" where
  "digits_number s = foldl (\<lambda>acc c. 10 * acc + digit_val c) 0 s"

text \<open>\<open>int(x)\<close> of a finite float truncates towards zero.\<close>

definition int_of_float :: "real \<Rightarrow> int" where
  "int_of_float x = (if 0 \<le> x then \<lfloor>x\<rfloor> else \<lceil>x\<rceil>)"

text \<open>
  \<open>n * s\<close> for an \<open>int\<close> n and a \<open>str\<close> s, on a 64-bit interpreter: n copies
  of s, none when n is not positive. A count that does not fit a signed 64-bit index
  raises \<open>OverflowError\<close>, and so does a result longer than such an index can tell; a
  result that does not fit the memory raises \<open>MemoryError\<close>.
\<close>

definition str_repeat :: "interpreter \<Rightarrow> int \<Rightarrow> string \<Rightarrow> error + string" where
  "str_repeat py n s =
     (if n < - (2 ^ 63) \<or> 2 ^ 63 \<le> n then Inl OverflowError
      else if n < 1 then Inr []
      else if n = 1 then Inr s
      else if (2 ^ 63 - 1) div nat n < length s then Inl OverflowError
      else if max_str_length py < nat n * length s then Inl MemoryError
      else Inr (concat (replicate (nat n) s)))"

text \<open>
  \<open>int(n * v)\<close> for an \<open>int\<close> n, as line 26 of the chunk splitter computes it. For an
  \<open>int\<close> v the product is exact. For a \<open>str\<close> v the product is a repetition of v,
  which \<open>int\<close> then reads as a numeral. For a \<open>float\<close> v the product is a float
  product, n converted to a float first, and \<open>int\<close> of an infinity raises
  \<open>OverflowError\<close>. For \<open>None\<close> the product raises \<open>TypeError\<close>.
\<close>

definition int_of_product :: "interpreter \<Rightarrow> int \<Rightarrow> pyval \<Rightarrow> error + int" where
  "int_of_product py n v =
     (case v of
        PInt c \<Rightarrow> Inr (n * c)
      | PStr s \<Rightarrow> (case str_repeat py n s of Inl e \<Rightarrow> Inl e | Inr t \<Rightarrow> int_of_str py t)
      | PFloat x \<Rightarrow>
          (case float_of_int n of
             Inl e \<Rightarrow> Inl e
           | Inr f \<Rightarrow>
               (case float_mul f x of
                  Fin y \<Rightarrow> Inr (int_of_float y)
                | PosInf \<Rightarrow> Inl OverflowError
                | NegInf \<Rightarrow> Inl OverflowError))
      | PNone \<Rightarrow> Inl TypeError)"

subsection \<open>\<open>str(n)\<close> of an integer\<close>

fun nat_digits :: "nat \<Rightarrow> string" where
  "nat_digits n =
     (if n < 10 then [''0123456789'' ! n]
      else nat_digits (n div 10) @ [''0123456789'' ! (n mod 10)])"

declare nat_digits.simps [simp del]

definition str_of_int :: "int \<Rightarrow> string" where
  "str_of_int i = (if i < 0 then CHR ''-'' # nat_digits (nat (- i)) else nat_digits (nat i))"

section \<open>Paths\<close>

text \<open>
  \<open>os.path\<close> on a POSIX system. \<open>rfind s c\<close> is the index of the last \<open>c\<close> in
  \<open>s\<close>, and \<open>-1\<close> when there is none.
\<close>

fun rfind :: "string \<Rightarrow> char \<Rightarrow> int" where
  "rfind [] c = -1"
| "rfind (x # xs) c =
     (let r = rfind xs c in if 0 \<le> r then r + 1 else if x = c then 0 else -1)"

definition basename :: "string \<Rightarrow> string" where
  "basename p = drop (nat (rfind p CHR ''/'' + 1)) p"

text \<open>\<open>s.rstrip('/')\<close> and \<open>s.lstrip('.')\<close>.\<close>

definition rstrip_sep :: "string \<Rightarrow> string" where
  "rstrip_sep s = rev (dropWhile (\<lambda>c. c = CHR ''/'') (rev s))"

definition lstrip_dot :: "string \<Rightarrow> string" where
  "lstrip_dot s = dropWhile (\<lambda>c. c = CHR ''.'') s"

definition dirname :: "string \<Rightarrow> string" where
  "dirname p =
     (let head = take (nat (rfind p CHR ''/'' + 1)) p
      in if head \<noteq> [] \<and> head \<noteq> replicate (length head) CHR ''/'' then rstrip_sep head else head)"

text \<open>
  The loop of \<open>splitext\<close> that skips the leading dots of the file name: it answers
  whether a character other than a dot stands at an index from \<open>i\<close> up to \<open>dotIndex\<close>
  (excluded).
\<close>

function has_name_before_dot :: "string \<Rightarrow> nat \<Rightarrow> nat \<Rightarrow> bool" where
  "has_name_before_dot p i dotIndex =
     (if i < dotIndex then
        (if take 1 (drop i p) \<noteq> ''.'' then True else has_name_before_dot p (i + 1) dotIndex)
      else False)"
  by pat_completeness auto
termination
  by (relation "measure (\<lambda>(p, i, dotIndex). dotIndex - i)") auto

declare has_name_before_dot.simps [simp del]

definition splitext :: "string \<Rightarrow> string \<times> string" where
  "splitext p =
     (let sepIndex = rfind p CHR ''/'';
          dotIndex = rfind p CHR ''.''
      in if sepIndex < dotIndex \<and> has_name_before_dot p (nat (sepIndex + 1)) (nat dotIndex)
         then (take (nat dotIndex) p, drop (nat dotIndex) p)
         else (p, []))"

section \<open>The audio collaborator and the world\<close>

text \<open>What the scripts read of a decoded \<open>AudioSegment\<close>.\<close>

record audio_segment =
  duration_seconds :: real
  channels :: nat
  frame_rate :: nat
  frame_width :: nat

text \<open>
  One exported file: \<open>audio[start:end].export(path, format=...)\<close>, with the segment
  \<open>audio\<close> the slice is cut from. A whole segment is exported with no bounds.
\<close>

record export =
  export_path :: string
  export_format :: string
  export_slice :: "(int \<times> int) option"
  export_source :: audio_segment

text \<open>
  The world a script runs in: the interpreter, what decoding a path gives, the size of a
  file in bytes, the clock, which exports the codec refuses, the MIME table, and the
  codec's remixing to a channel count. \<open>written\<close> collects the files exported so far,
  oldest first.
\<close>

record world =
  python :: interpreter
  from_file :: "string \<Rightarrow> error + audio_segment"
  getsize :: "string \<Rightarrow> error + nat"
  time_time :: real
  export_error :: "string \<Rightarrow> string \<Rightarrow> error option"
  guess_type :: "string \<Rightarrow> string option"
  set_channels :: "int \<Rightarrow> audio_segment \<Rightarrow> error + audio_segment"
  written :: "export list"

section \<open>The chunk splitter\<close>

text \<open>
  Line 24 of \<open>split_file_by_size\<close>,
  \<open>file_size_kb = os.path.getsize(infile) / 1024\<close>, a division of two \<open>int\<close>s, and
  line 25, \<open>duration = audio.duration_seconds * 1000\<close>, a float product.
\<close>

definition calc_file_size_kb :: "nat \<Rightarrow> error + real" where
  "calc_file_size_kb size_bytes = int_truediv (int size_bytes) 1024"

definition calc_duration :: "real \<Rightarrow> pyfloat" where
  "calc_duration dur_seconds = float_mul dur_seconds 1000"

text \<open>
  Line 26, \<open>ms_per_chunk = int((ceil(duration / file_size_kb)) * chunk_size)\<close>.
\<close>

definition calc_ms_per_chunk :: "interpreter \<Rightarrow> pyfloat \<Rightarrow> real \<Rightarrow> pyval \<Rightarrow> error + int" where
  "calc_ms_per_chunk py duration file_size_kb chunk_size =
     (case float_truediv duration file_size_kb of
        Inl e \<Rightarrow> Inl e
      | Inr q \<Rightarrow>
          (case py_ceil q of
             Inl e \<Rightarrow> Inl e
           | Inr n \<Rightarrow> int_of_product py n chunk_size))"

text \<open>
  Line 27, \<open>num_chunks = int(ceil(duration / ms_per_chunk))\<close>: the division converts
  \<open>ms_per_chunk\<close> to a float first.
\<close>

definition calc_num_chunks :: "pyfloat \<Rightarrow> int \<Rightarrow> error + int" where
  "calc_num_chunks duration ms_per_chunk =
     (case float_of_int ms_per_chunk of
        Inl e \<Rightarrow> Inl e
      | Inr m \<Rightarrow>
          (case float_truediv duration m of
             Inl e \<Rightarrow> Inl e
           | Inr r \<Rightarrow> py_ceil r))"

text \<open>
  Lines 24 to 27: from the size of the file in bytes, the duration in seconds and
  \<open>chunk_size\<close>, the pair \<open>(ms_per_chunk, num_chunks)\<close>.
\<close>

definition chunk_plan :: "interpreter \<Rightarrow> nat \<Rightarrow> real \<Rightarrow> pyval \<Rightarrow> error + (int \<times> int)" where
  "chunk_plan py size_bytes dur_seconds chunk_size =
     (case calc_file_size_kb size_bytes of
        Inl e \<Rightarrow> Inl e
      | Inr file_size_kb \<Rightarrow>
          (let duration = calc_duration dur_seconds
           in case calc_ms_per_chunk py duration file_size_kb chunk_size of
                Inl e \<Rightarrow> Inl e
              | Inr ms_per_chunk \<Rightarrow>
                  (case calc_num_chunks duration ms_per_chunk of
                     Inl e \<Rightarrow> Inl e
                   | Inr num_chunks \<Rightarrow> Inr (ms_per_chunk, num_chunks))))"

text \<open>Line 38, the path of chunk \<open>i\<close> (counted from 0).\<close>

definition chunk_path :: "string \<Rightarrow> int \<Rightarrow> string \<Rightarrow> int \<Rightarrow> string \<Rightarrow> string" where
  "chunk_path directory timestamp file_name i extension =
     directory @ str_of_int timestamp @ ''_'' @ file_name @ ''_chunk_'' @ str_of_int (i + 1)
       @ ''.'' @ extension"

text \<open>Lines 35 to 39, the file that round \<open>i\<close> of the loop exports.\<close>

definition chunk_export ::
  "audio_segment \<Rightarrow> string \<Rightarrow> int \<Rightarrow> string \<Rightarrow> string \<Rightarrow> int \<Rightarrow> int \<Rightarrow> export" where
  "chunk_export audio directory timestamp file_name extension ms_per_chunk i =
     (let start = i * ms_per_chunk;
          end = (i + 1) * ms_per_chunk
      in \<lparr>export_path = chunk_path directory timestamp file_name i extension,
          export_format = extension,
          export_slice = Some (start, end),
          export_source = audio\<rparr>)"

text \<open>
  The loop over \<open>range(num_chunks)\<close>, from index \<open>i\<close> with \<open>k\<close> rounds to go. An export
  that raises ends the call; the files written before it stay written.
\<close>

fun export_chunks ::
  "world \<Rightarrow> audio_segment \<Rightarrow> string \<Rightarrow> int \<Rightarrow> string \<Rightarrow> string \<Rightarrow> int \<Rightarrow> int \<Rightarrow> nat \<Rightarrow> string list
     \<Rightarrow> world \<times> (error + string list)" where
  "export_chunks w audio directory timestamp file_name extension ms_per_chunk i 0 chunks =
     (w, Inr chunks)"
| "export_chunks w audio directory timestamp file_name extension ms_per_chunk i (Suc k) chunks =
     (let path = chunk_path directory timestamp file_name i extension
      in case export_error w path extension of
           Some e \<Rightarrow> (w, Inl e)
         | None \<Rightarrow>
             export_chunks
               (w\<lparr>written := written w @
                    [chunk_export audio directory timestamp file_name extension ms_per_chunk i]\<rparr>)
               audio directory timestamp file_name extension ms_per_chunk (i + 1) k
               (chunks @ [path]))"

definition split_file_by_size :: "world \<Rightarrow> string \<Rightarrow> string \<Rightarrow> pyval \<Rightarrow> world \<times> (error + string list)" where
  "split_file_by_size w infile directory chunk_size =
     (case from_file w infile of
        Inl e \<Rightarrow> (w, Inl e)
      | Inr audio \<Rightarrow>
          (case getsize w infile of
             Inl e \<Rightarrow> (w, Inl e)
           | Inr size_bytes \<Rightarrow>
               (case chunk_plan (python w) size_bytes (duration_seconds audio) chunk_size of
                  Inl e \<Rightarrow> (w, Inl e)
                | Inr (ms_per_chunk, num_chunks) \<Rightarrow>
                    (let (file_name, ext) = splitext (basename infile);
                         extension = lstrip_dot ext;
                         timestamp = int_of_float (time_time w)
                     in export_chunks w audio directory timestamp file_name extension
                          ms_per_chunk 0 (nat num_chunks) []))))"

text \<open>
  The sizing rule as the specification words it:
  \<open>ms_per_chunk = ceil(duration_ms / file_size_kb) * chunk_size\<close> and
  \<open>num_chunks = ceil(duration_ms / ms_per_chunk)\<close>, where \<open>duration_ms\<close> and
  \<open>file_size_kb\<close> are the floats of lines 25 and 24 and each division is a float
  division, its quotient rounded to the nearest double.
\<close>

definition spec_duration_ms :: "real \<Rightarrow> real" where
  "spec_duration_ms dur_seconds = round_double (dur_seconds * 1000)"

definition spec_file_size_kb :: "nat \<Rightarrow> real" where
  "spec_file_size_kb size_bytes = round_double (real size_bytes / 1024)"

definition spec_ms_per_chunk :: "real \<Rightarrow> real \<Rightarrow> int \<Rightarrow> int" where
  "spec_ms_per_chunk duration_ms file_size_kb chunk_size =
     \<lceil>round_double (duration_ms / file_size_kb)\<rceil> * chunk_size"

definition spec_num_chunks :: "real \<Rightarrow> int \<Rightarrow> int" where
  "spec_num_chunks duration_ms ms_per_chunk =
     \<lceil>round_double (duration_ms / round_double (real_of_int ms_per_chunk))\<rceil>"

section \<open>The detail extractor\<close>

text \<open>
  \<open>get_audio_details\<close> returns a dictionary; its items are listed in the order the
  dictionary literal gives them, which is the order \<open>items()\<close> walks.
\<close>

definition get_audio_details :: "world \<Rightarrow> string \<Rightarrow> error + (string \<times> pyval) list" where
  "get_audio_details w filepath =
     (case from_file w filepath of
        Inl e \<Rightarrow> Inl e
      | Inr audio_file \<Rightarrow>
          (let duration = duration_seconds audio_file;
               chans = channels audio_file;
               sample_rate = frame_rate audio_file;
               bit_rate = frame_rate audio_file * frame_width audio_file * 8;
               dirpath = dirname filepath;
               base = basename filepath;
               (filename, extension) = splitext base;
               mime_type = guess_type w filepath
           in case getsize w filepath of
                Inl e \<Rightarrow> Inl e
              | Inr size_bytes \<Rightarrow>
                  (let file_size = real size_bytes / 1024
                   in Inr [(''filepath'', PStr filepath),
                           (''dirpath'', PStr dirpath),
                           (''basename'', PStr base),
                           (''filename'', PStr filename),
                           (''extension'', PStr (lstrip_dot extension)),
                           (''mime_type'', (case mime_type of None \<Rightarrow> PNone | Some m \<Rightarrow> PStr m)),
                           (''filesize'', PFloat file_size),
                           (''duration'', PFloat duration),
                           (''bit_rate'', PInt (int bit_rate)),
                           (''sample_rate'', PInt (int sample_rate)),
                           (''channels'', PInt (int chans))])))"

section \<open>The converter\<close>

definition convert_audio_file ::
  "world \<Rightarrow> string \<Rightarrow> string \<Rightarrow> string \<Rightarrow> int option \<Rightarrow> world \<times> (error + unit)" where
  "convert_audio_file w infile outfile outfile_format chans =
     (case from_file w infile of
        Inl e \<Rightarrow> (w, Inl e)
      | Inr audio \<Rightarrow>
          (case (case chans of None \<Rightarrow> Inr audio | Some n \<Rightarrow> set_channels w n audio) of
             Inl e \<Rightarrow> (w, Inl e)
           | Inr audio' \<Rightarrow>
               (case export_error w outfile outfile_format of
                  Some e \<Rightarrow> (w, Inl e)
                | None \<Rightarrow>
                    (w\<lparr>written := written w @
                         [\<lparr>export_path = outfile, export_format = outfile_format,
                           export_slice = None, export_source = audio'\<rparr>]\<rparr>,
                     Inr ()))))"

section \<open>The error-rate calculator\<close>

text \<open>
  \<open>compute_wer\<close> calls the word-alignment collaborator \<open>wer\<close>, which is not part of the
  repository and is a parameter here. Next to its result, \<open>compute_wer\<close> returns the calls
  it made to the collaborator, as pairs \<open>(reference, hypothesis)\<close>.
\<close>

definition compute_wer ::
  "(string \<Rightarrow> string \<Rightarrow> error + real) \<Rightarrow> string \<Rightarrow> string
     \<Rightarrow> (string \<times> string) list \<times> (error + pyval)" where
  "compute_wer wer reference hypothesis =
     (if length reference = 0 \<or> length hypothesis = 0 then ([], Inr (PInt 100))
      else ([(reference, hypothesis)],
            case wer reference hypothesis of
              Inl e \<Rightarrow> Inl e
            | Inr error_rate \<Rightarrow> Inr (PFloat (error_rate * 100))))"

text \<open>
  Modelled from the spec: the word-alignment collaborator \<open>wer\<close> (the function the script
  imports from the \<open>jiwer\<close> library) is missing from the repository. The specification
  describes it as the edit distance between the reference and hypothesis word sequences,
  normalized by the reference length; a reference with no word has no rate.
\<close>

fun split_words :: "string \<Rightarrow> string \<Rightarrow> string list" where
  "split_words cur [] = (if cur = [] then [] else [cur])"
| "split_words cur (c # cs) =
     (if is_space c then (if cur = [] then split_words [] cs else cur # split_words [] cs)
      else split_words (cur @ [c]) cs)"

definition words_of :: "string \<Rightarrow> string list" where
  "words_of s = split_words [] s"

fun edit_distance :: "'a list \<Rightarrow> 'a list \<Rightarrow> nat" where
  "edit_distance [] ys = length ys"
| "edit_distance (x # xs) [] = length (x # xs)"
| "edit_distance (x # xs) (y # ys) =
     min (min (edit_distance xs (y # ys) + 1) (edit_distance (x # xs) ys + 1))
         (edit_distance xs ys + (if x = y then 0 else 1))"

definition spec_wer :: "string \<Rightarrow> string \<Rightarrow> error + real" where
  "spec_wer reference hypothesis =
     (let r = words_of reference; h = words_of hypothesis
      in if r = [] then Inl ValueError
         else Inr (real (edit_distance r h) / real (length r)))"

section \<open>The commands\<close>

text \<open>
  Each script parses its flags with \<open>argparse\<close> and then runs its function inside
  \<open>try\<close>. A command line is given here by the value of each flag, \<open>None\<close> for a flag
  that is absent; the option \<open>-h\<close> that \<open>argparse\<close> adds, and arguments that are no
  flag of the script, are not part of it. \<open>parse_args\<close> stands before the \<open>try\<close>:
  when a required flag is absent, or the value of a flag of \<open>type=int\<close> is no numeral
  that \<open>int\<close> accepts, it ends the process with status 2 and prints its usage message
  to the standard error stream. What a run leaves is the world, the lines printed to the
  standard output, and the exit status.
\<close>

datatype printed =
    Text string
  | KeyValue string pyval
  | Value pyval
  | Message error

definition audio_splitter_main ::
  "world \<Rightarrow> string option \<Rightarrow> string option \<Rightarrow> string option \<Rightarrow> world \<times> printed list \<times> int" where
  "audio_splitter_main w infile tmp_dir chunk_size =
     (case (infile, tmp_dir, chunk_size) of
        (Some i, Some t, Some c) \<Rightarrow>
          (case split_file_by_size w i t (PStr c) of
             (w', Inr chunks) \<Rightarrow> (w', map Text chunks, 0)
           | (w', Inl e) \<Rightarrow> (w', [Message e], 1))
      | _ \<Rightarrow> (w, [], 2))"

definition audio_details_main :: "world \<Rightarrow> string option \<Rightarrow> world \<times> printed list \<times> int" where
  "audio_details_main w infile =
     (case infile of
        Some i \<Rightarrow>
          (case get_audio_details w i of
             Inr audio_details \<Rightarrow> (w, map (\<lambda>(key, val). KeyValue key val) audio_details, 0)
           | Inl e \<Rightarrow> (w, [Message e], 1))
      | None \<Rightarrow> (w, [], 2))"

definition stt_error_rate_main ::
  "(string \<Rightarrow> string \<Rightarrow> error + real) \<Rightarrow> world \<Rightarrow> string option \<Rightarrow> string option
     \<Rightarrow> world \<times> printed list \<times> int" where
  "stt_error_rate_main wer w reference hypothesis =
     (case (reference, hypothesis) of
        (Some r, Some h) \<Rightarrow>
          (case snd (compute_wer wer r h) of
             Inr error_rate \<Rightarrow> (w, [Value error_rate], 0)
           | Inl e \<Rightarrow> (w, [Message e], 1))
      | _ \<Rightarrow> (w, [], 2))"

text \<open>\<open>--channels\<close> is optional, of \<open>type=int\<close>, with default \<open>None\<close>.\<close>

definition parse_channels :: "interpreter \<Rightarrow> string option \<Rightarrow> error + int option" where
  "parse_channels py chans =
     (case chans of
        None \<Rightarrow> Inr None
      | Some s \<Rightarrow> (case int_of_str py s of Inl e \<Rightarrow> Inl e | Inr n \<Rightarrow> Inr (Some n)))"

definition audio_convertor_main ::
  "world \<Rightarrow> string option \<Rightarrow> string option \<Rightarrow> string option \<Rightarrow> string option
     \<Rightarrow> world \<times> printed list \<times> int" where
  "audio_convertor_main w infile outfile outfile_format chans =
     (case (infile, outfile, outfile_format, parse_channels (python w) chans) of
        (Some i, Some out, Some f, Inr n) \<Rightarrow>
          (case convert_audio_file w i out f n of
             (w', Inr u) \<Rightarrow> (w', [], 0)
           | (w', Inl e) \<Rightarrow> (w', [Message e], 1))
      | _ \<Rightarrow> (w, [], 2))"

section \<open>A sample world\<close>

text \<open>
  An interpreter with the default limit of 4300 digits, a ten-second stereo recording, and
  a world that holds it in a file of 1000 KB.
\<close>

definition demo_audio :: audio_segment where
  "demo_audio = \<lparr>duration_seconds = 10, channels = 2, frame_rate = 44100, frame_width = 4\<rparr>"

definition demo_world :: world where
  "demo_world =
     \<lparr>python = \<lparr>int_max_str_digits = 4300, max_str_length = 2 ^ 32\<rparr>,
      from_file = (\<lambda>p. if p = ''/in/song.mp3'' then Inr demo_audio else Inl FileNotFoundError),
      getsize = (\<lambda>p. if p = ''/in/song.mp3'' then Inr 1024000 else Inl FileNotFoundError),
      time_time = 1700000000 + 1 / 2,
      export_error = (\<lambda>p f. None),
      guess_type = (\<lambda>p. if p = ''/in/song.mp3'' then Some ''audio/mpeg'' else None),
      set_channels = (\<lambda>n a. if 0 < n then Inr (a\<lparr>channels := nat n\<rparr>) else Inl ValueError),
      written = []\<rparr>"

text \<open>The same world with an audio file of zero duration.\<close>

definition silent_world :: world where
  "silent_world = demo_world\<lparr>from_file := (\<lambda>p. Inr (demo_audio\<lparr>duration_seconds := 0\<rparr>))\<rparr>"

text \<open>
  The sample world with an audio file of another duration and size, and the smallest
  positive double, \<open>5e-324\<close>.
\<close>

definition world_of :: "real \<Rightarrow> nat \<Rightarrow> world" where
  "world_of dur_seconds size_bytes =
     demo_world\<lparr>from_file := (\<lambda>p. Inr (demo_audio\<lparr>duration_seconds := dur_seconds\<rparr>)),
                getsize := (\<lambda>p. Inr size_bytes)\<rparr>"

definition smallest_float :: real where
  "smallest_float = 1 / 2 ^ 1074"

section \<open>Properties of the float operations\<close>

subsection \<open>Rounding to the nearest double\<close>

lemma ulp_pos: "0 < ulp x"
  by (simp add: ulp_def)

lemma round_half_even_of_int: "round_half_even (real_of_int k) = k"
  by (simp add: round_half_even_def)

lemma round_half_even_lower: "y - 1 / 2 \<le> real_of_int (round_half_even y)"
  unfolding round_half_even_def Let_def by (auto; linarith)

lemma round_half_even_upper: "real_of_int (round_half_even y) \<le> y + 1 / 2"
  unfolding round_half_even_def Let_def by (auto; linarith)

lemma round_half_even_ge_floor: "\<lfloor>y\<rfloor> \<le> round_half_even y"
  unfolding round_half_even_def Let_def by auto

lemma round_half_even_le_ceiling: "round_half_even y \<le> \<lceil>y\<rceil>"
proof (cases "\<exists>k. y = real_of_int k")
  case True
  then obtain k where "y = real_of_int k" by blast
  then show ?thesis by (simp add: round_half_even_of_int)
next
  case False
  then have "y \<noteq> real_of_int \<lfloor>y\<rfloor>" by metis
  then have "\<lceil>y\<rceil> = \<lfloor>y\<rfloor> + 1" by (simp add: ceiling_altdef)
  moreover have "round_half_even y \<le> \<lfloor>y\<rfloor> + 1"
    unfolding round_half_even_def Let_def by auto
  ultimately show ?thesis by simp
qed

lemma round_half_even_ge_int: "real_of_int k \<le> y \<Longrightarrow> k \<le> round_half_even y"
  using round_half_even_ge_floor [of y] le_floor_iff [of k y] by linarith

lemma round_half_even_le_int: "y \<le> real_of_int k \<Longrightarrow> round_half_even y \<le> k"
  using round_half_even_le_ceiling [of y] ceiling_le_iff [of y k] by linarith

lemma log2_lower: "0 < x \<Longrightarrow> 2 powr real_of_int \<lfloor>log 2 x\<rfloor> \<le> x"
  using floor_log_eq_powr_iff [of x 2 "\<lfloor>log 2 x\<rfloor>"] by simp

lemma log2_upper: "0 < x \<Longrightarrow> x < 2 powr (real_of_int \<lfloor>log 2 x\<rfloor> + 1)"
  using floor_log_eq_powr_iff [of x 2 "\<lfloor>log 2 x\<rfloor>"] by simp

lemma floor_log2_eq:
  "2 powr real_of_int e \<le> x \<Longrightarrow> x < 2 powr (real_of_int e + 1) \<Longrightarrow> \<lfloor>log 2 x\<rfloor> = e"
proof -
  assume a: "2 powr real_of_int e \<le> x" and b: "x < 2 powr (real_of_int e + 1)"
  have "0 < 2 powr real_of_int e" by simp
  with a have "0 < x" by linarith
  then show ?thesis using floor_log_eq_powr_iff [of x 2 e] a b by simp
qed

lemma pow2_int: "0 \<le> n \<Longrightarrow> 2 powr real_of_int n = real_of_int (2 ^ nat n)"
proof -
  assume "0 \<le> n"
  then have "real_of_int n = real (nat n)" by (simp only: of_nat_nat)
  then have "2 powr real_of_int n = 2 powr real (nat n)" by (rule arg_cong)
  also have "\<dots> = 2 ^ nat n" by (simp add: powr_realpow)
  finally show ?thesis by simp
qed

lemma powr_scale_le: "2 powr a \<le> (z::real) \<Longrightarrow> 2 powr (a - b) \<le> z / 2 powr b"
  by (simp add: powr_diff divide_right_mono)

lemma powr_scale_less: "(z::real) < 2 powr a \<Longrightarrow> z / 2 powr b < 2 powr (a - b)"
  by (simp add: powr_diff divide_strict_right_mono)

lemma exponent_eq:
  assumes "- 1022 \<le> e" and "2 powr real_of_int e \<le> \<bar>x\<bar>" and "\<bar>x\<bar> < 2 powr (real_of_int e + 1)"
  shows "exponent x = e"
  using floor_log2_eq [OF assms(2,3)] assms(1) by (simp add: exponent_def)

lemma scaled_normal:
  assumes "- 1022 \<le> e" and "2 powr real_of_int e \<le> \<bar>x\<bar>" and "\<bar>x\<bar> < 2 powr (real_of_int e + 1)"
  shows "2 ^ 52 \<le> \<bar>x\<bar> / ulp x" and "\<bar>x\<bar> / ulp x < 2 ^ 53"
proof -
  have u: "ulp x = 2 powr (real_of_int e - 52)"
    using exponent_eq [OF assms] by (simp add: ulp_def)
  have "2 powr (real_of_int e - (real_of_int e - 52)) \<le> \<bar>x\<bar> / 2 powr (real_of_int e - 52)"
    using assms(2) by (rule powr_scale_le)
  then show "2 ^ 52 \<le> \<bar>x\<bar> / ulp x" by (simp add: u)
  have "\<bar>x\<bar> / 2 powr (real_of_int e - 52) < 2 powr (real_of_int e + 1 - (real_of_int e - 52))"
    using assms(3) by (rule powr_scale_less)
  then show "\<bar>x\<bar> / ulp x < 2 ^ 53" by (simp add: u)
qed

lemma round_double_eval:
  assumes "- 1022 \<le> e" and "2 powr real_of_int e \<le> \<bar>x\<bar>" and "\<bar>x\<bar> < 2 powr (real_of_int e + 1)"
  shows "round_double x =
           real_of_int (round_half_even (x / 2 powr (real_of_int e - 52))) * 2 powr (real_of_int e - 52)"
proof -
  have "0 < 2 powr real_of_int e" by simp
  with assms(2) have "x \<noteq> 0" by linarith
  moreover have "ulp x = 2 powr (real_of_int e - 52)"
    using exponent_eq [OF assms] by (simp add: ulp_def)
  ultimately show ?thesis by (simp add: round_double_def)
qed

lemma round_double_exact:
  assumes "x / ulp x = real_of_int K"
  shows "round_double x = x"
proof -
  have "real_of_int (round_half_even (x / ulp x)) * ulp x = x / ulp x * ulp x"
    by (simp only: assms round_half_even_of_int)
  also have "\<dots> = x" using ulp_pos [of x] by simp
  finally show ?thesis by (simp add: round_double_def)
qed

lemma round_double_error: "\<bar>round_double x - x\<bar> \<le> ulp x / 2"
proof (cases "x = 0")
  case True
  then show ?thesis using ulp_pos [of x] by (simp add: round_double_def)
next
  case False
  let ?y = "x / ulp x"
  have "\<bar>real_of_int (round_half_even ?y) - ?y\<bar> \<le> 1 / 2"
    using round_half_even_lower [of ?y] round_half_even_upper [of ?y] by linarith
  then have "\<bar>real_of_int (round_half_even ?y) - ?y\<bar> * ulp x \<le> 1 / 2 * ulp x"
    using ulp_pos [of x] by (simp only: mult_le_cancel_right_pos)
  moreover have "\<bar>real_of_int (round_half_even ?y) - ?y\<bar> * ulp x = \<bar>round_double x - x\<bar>"
  proof -
    have "\<bar>real_of_int (round_half_even ?y) - ?y\<bar> * ulp x =
            \<bar>(real_of_int (round_half_even ?y) - ?y) * ulp x\<bar>"
      using ulp_pos [of x] by (simp add: abs_mult)
    also have "(real_of_int (round_half_even ?y) - ?y) * ulp x = round_double x - x"
      using False ulp_pos [of x] by (simp add: round_double_def field_simps)
    finally show ?thesis .
  qed
  ultimately show ?thesis by simp
qed

lemma round_double_nonneg: "0 \<le> x \<Longrightarrow> 0 \<le> round_double x"
proof -
  assume "0 \<le> x"
  then have "real_of_int 0 \<le> x / ulp x" using ulp_pos [of x] by simp
  then have "0 \<le> round_half_even (x / ulp x)" by (rule round_half_even_ge_int)
  then show ?thesis using ulp_pos [of x] by (simp add: round_double_def)
qed

lemma round_double_nonpos: "x \<le> 0 \<Longrightarrow> round_double x \<le> 0"
proof -
  assume "x \<le> 0"
  then have "x / ulp x \<le> real_of_int 0" using ulp_pos [of x] by (simp add: divide_nonpos_pos)
  then have "round_half_even (x / ulp x) \<le> 0" by (rule round_half_even_le_int)
  then show ?thesis using ulp_pos [of x] by (simp add: round_double_def mult_nonpos_nonneg)
qed

lemma round_double_binade:
  assumes "- 1022 \<le> e" and "2 powr real_of_int e \<le> x" and "x < 2 powr (real_of_int e + 1)"
  shows "2 powr real_of_int e \<le> round_double x" and "round_double x \<le> 2 powr (real_of_int e + 1)"
proof -
  have "0 < 2 powr real_of_int e" by simp
  with assms(2) have pos: "0 < x" by linarith
  have a: "- 1022 \<le> e" "2 powr real_of_int e \<le> \<bar>x\<bar>" "\<bar>x\<bar> < 2 powr (real_of_int e + 1)"
    using assms pos by simp_all
  have u: "ulp x = 2 powr (real_of_int e - 52)"
    using exponent_eq [OF a] by (simp add: ulp_def)
  have "real_of_int (2 ^ 52) \<le> x / ulp x" using scaled_normal(1) [OF a] pos by simp
  then have "2 ^ 52 \<le> round_half_even (x / ulp x)" by (rule round_half_even_ge_int)
  then have "real_of_int (2 ^ 52) \<le> real_of_int (round_half_even (x / ulp x))"
    by (simp only: of_int_le_iff)
  then have "real_of_int (2 ^ 52) * ulp x \<le> round_double x"
    using pos ulp_pos [of x] by (simp add: round_double_def)
  moreover have "real_of_int (2 ^ 52) * ulp x = 2 powr real_of_int e"
  proof -
    have "real_of_int (2 ^ 52) * ulp x = 2 powr 52 * 2 powr (real_of_int e - 52)" by (simp add: u)
    also have "\<dots> = 2 powr (52 + (real_of_int e - 52))" by (simp only: powr_add)
    finally show ?thesis by simp
  qed
  ultimately show "2 powr real_of_int e \<le> round_double x" by simp
  have "x / ulp x \<le> real_of_int (2 ^ 53)" using scaled_normal(2) [OF a] pos by simp
  then have "round_half_even (x / ulp x) \<le> 2 ^ 53" by (rule round_half_even_le_int)
  then have "real_of_int (round_half_even (x / ulp x)) \<le> real_of_int (2 ^ 53)"
    by (simp only: of_int_le_iff)
  then have "round_double x \<le> real_of_int (2 ^ 53) * ulp x"
    using pos ulp_pos [of x] by (simp add: round_double_def)
  moreover have "real_of_int (2 ^ 53) * ulp x = 2 powr (real_of_int e + 1)"
  proof -
    have "real_of_int (2 ^ 53) * ulp x = 2 powr 53 * 2 powr (real_of_int e - 52)" by (simp add: u)
    also have "\<dots> = 2 powr (53 + (real_of_int e - 52))" by (simp only: powr_add)
    finally show ?thesis by (simp add: add.commute)
  qed
  ultimately show "round_double x \<le> 2 powr (real_of_int e + 1)" by simp
qed

lemma floor_log2_ge:
  assumes "2 powr real_of_int a \<le> x"
  shows "a \<le> \<lfloor>log 2 x\<rfloor>"
proof -
  have "0 < 2 powr real_of_int a" by simp
  with assms have pos: "0 < x" by linarith
  have "real_of_int a \<le> log 2 x" using assms pos by (simp add: le_log_iff)
  then show ?thesis by (simp only: le_floor_iff)
qed

lemma floor_log2_less:
  assumes "0 < x" and "x < 2 powr real_of_int b"
  shows "\<lfloor>log 2 x\<rfloor> < b"
proof -
  have "log 2 x < real_of_int b" using assms by (simp add: log_less_iff)
  then show ?thesis by (simp only: floor_less_iff)
qed

lemma round_double_power: "- 1022 \<le> b \<Longrightarrow> round_double (2 powr real_of_int b) = 2 powr real_of_int b"
proof -
  assume b: "- 1022 \<le> b"
  let ?x = "2 powr real_of_int b"
  have "\<bar>?x\<bar> = ?x" by simp
  moreover have "?x < 2 powr (real_of_int b + 1)" by (simp add: powr_less_mono)
  ultimately have "exponent ?x = b" using b by (intro exponent_eq) simp_all
  then have "ulp ?x = 2 powr (real_of_int b - 52)" by (simp add: ulp_def)
  then have "?x / ulp ?x = 2 powr (real_of_int b - (real_of_int b - 52))" by (simp only: powr_diff)
  then have "?x / ulp ?x = real_of_int (2 ^ 52)" by simp
  then show ?thesis by (rule round_double_exact)
qed

lemma round_double_range:
  assumes "- 1022 \<le> a" and "2 powr real_of_int a \<le> x" and "x \<le> 2 powr real_of_int b"
  shows "2 powr real_of_int a \<le> round_double x" and "round_double x \<le> 2 powr real_of_int b"
proof -
  have "0 < 2 powr real_of_int a" by simp
  with assms(2) have pos: "0 < x" by linarith
  let ?l = "\<lfloor>log 2 x\<rfloor>"
  have al: "a \<le> ?l" using assms(2) by (rule floor_log2_ge)
  with assms(1) have l: "- 1022 \<le> ?l" by linarith
  note bin = round_double_binade [OF l log2_lower [OF pos] log2_upper [OF pos]]
  have "2 powr real_of_int a \<le> 2 powr real_of_int ?l" using al by (simp add: powr_mono)
  with bin(1) show "2 powr real_of_int a \<le> round_double x" by linarith
  show "round_double x \<le> 2 powr real_of_int b"
  proof (cases "x = 2 powr real_of_int b")
    case True
    have "2 powr real_of_int a \<le> 2 powr real_of_int b" using assms(2,3) by linarith
    then have "a \<le> b" by simp
    with assms(1) have "- 1022 \<le> b" by simp
    then show ?thesis unfolding True by (simp only: round_double_power)
  next
    case False
    with assms(3) have "x < 2 powr real_of_int b" by simp
    with pos have "?l < b" by (rule floor_log2_less)
    then have "real_of_int ?l + 1 \<le> real_of_int b" by linarith
    then have "2 powr (real_of_int ?l + 1) \<le> 2 powr real_of_int b" by (simp add: powr_mono)
    with bin(2) show ?thesis by linarith
  qed
qed


lemma round_half_even_minus: "round_half_even (- y) = - round_half_even y"
proof (cases "\<exists>k. y = real_of_int k")
  case True
  then obtain k where "y = real_of_int k" by blast
  then have "- y = real_of_int (- k)" by simp
  with \<open>y = real_of_int k\<close> show ?thesis by (simp only: round_half_even_of_int)
next
  case False
  then have ne: "y \<noteq> real_of_int \<lfloor>y\<rfloor>" by metis
  then have c: "\<lceil>y\<rceil> = \<lfloor>y\<rfloor> + 1" by (simp add: ceiling_altdef)
  have f: "\<lfloor>- y\<rfloor> = - \<lfloor>y\<rfloor> - 1" using c by (simp add: floor_minus)
  have lt: "real_of_int \<lfloor>y\<rfloor> < y" using ne of_int_floor_le [of y] by linarith
  show ?thesis
    unfolding round_half_even_def Let_def f using lt
    by (auto simp: field_simps)
qed

lemma round_double_minus: "round_double (- x) = - round_double x"
  by (simp add: round_double_def ulp_def exponent_def round_half_even_minus)

lemma round_double_int:
  assumes "\<bar>k\<bar> \<le> 2 ^ 53"
  shows "round_double (real_of_int k) = real_of_int k"
proof -
  have pos: "round_double (real_of_int n) = real_of_int n" if "0 < n" and "n \<le> 2 ^ 53" for n :: int
  proof -
    let ?x = "real_of_int n"
    let ?l = "\<lfloor>log 2 ?x\<rfloor>"
    have x: "0 < ?x" using that(1) by simp
    have "2 powr real_of_int 0 \<le> ?x" using that(1) by simp
    then have l0: "0 \<le> ?l" by (rule floor_log2_ge)
    have "\<bar>?x\<bar> = ?x" using x by (simp only: abs_of_pos)
    then have e: "exponent ?x = ?l" unfolding exponent_def using l0 by linarith
    have u: "ulp ?x = 2 powr (real_of_int ?l - 52)" by (simp add: ulp_def e)
    show ?thesis
    proof (cases "?l \<le> 52")
      case True
      then have "2 powr real_of_int (52 - ?l) = real_of_int (2 ^ nat (52 - ?l))"
        by (intro pow2_int) simp
      moreover have "?x / ulp ?x = ?x * 2 powr real_of_int (52 - ?l)"
        by (simp add: u powr_diff)
      ultimately have "?x / ulp ?x = real_of_int (n * 2 ^ nat (52 - ?l))" by simp
      then show ?thesis by (rule round_double_exact)
    next
      case False
      then have "53 \<le> ?l" by simp
      then have "2 powr real_of_int 53 \<le> 2 powr real_of_int ?l" by (simp only: powr_le_cancel_iff of_int_le_iff)
      with log2_lower [OF x] have "2 powr real_of_int 53 \<le> ?x" by linarith
      then have "2 ^ 53 \<le> ?x" by simp
      with that(2) have n: "?x = 2 powr real_of_int 53" by simp
      show ?thesis unfolding n by (rule round_double_power) simp
    qed
  qed
  show ?thesis
  proof (cases "0 < k")
    case True
    with assms show ?thesis by (intro pos) simp_all
  next
    case False
    show ?thesis
    proof (cases "k = 0")
      case True
      then show ?thesis by (simp add: round_double_def)
    next
      case False
      with \<open>\<not> 0 < k\<close> have "0 < - k" by simp
      moreover have "- k \<le> 2 ^ 53" using assms by simp
      ultimately have "round_double (real_of_int (- k)) = real_of_int (- k)" by (rule pos)
      then show ?thesis by (simp add: round_double_minus)
    qed
  qed
qed





lemma exponent_subnormal: "\<lfloor>log 2 \<bar>x\<bar>\<rfloor> \<le> - 1022 \<Longrightarrow> exponent x = - 1022"
  by (simp add: exponent_def)





lemma quotient_range:
  fixes x y :: real
  assumes "2 powr a \<le> x" and "x \<le> 2 powr b" and "2 powr c \<le> y" and "y \<le> 2 powr d"
  shows "2 powr (a - d) \<le> x / y" and "x / y \<le> 2 powr (b - c)"
proof -
  have cpos: "0 < (2::real) powr c" by simp
  with assms(3) have ypos: "0 < y" by linarith
  have apos: "0 < (2::real) powr a" by simp
  with assms(1) have x0: "0 \<le> x" by linarith
  have "2 powr a / 2 powr d \<le> x / y"
    using x0 assms(1) ypos assms(4) by (rule frac_le)
  then show "2 powr (a - d) \<le> x / y" by (simp only: powr_diff)
  have "0 \<le> (2::real) powr b" by simp
  then have "x / y \<le> 2 powr b / 2 powr c"
    using assms(2) cpos assms(3) by (rule frac_le)
  then show "x / y \<le> 2 powr (b - c)" by (simp only: powr_diff)
qed

lemma to_double_finite:
  assumes "- (2 ^ 1024) < round_double x" and "round_double x < 2 ^ 1024"
  shows "to_double x = Fin (round_double x)"
  using assms by (simp add: to_double_def Let_def)

lemma to_double_range:
  assumes "- 1022 \<le> a" and "2 powr real_of_int a \<le> x" and "x \<le> 2 powr real_of_int b"
    and "b \<le> 1023"
  shows "to_double x = Fin (round_double x)"
    and "2 powr real_of_int a \<le> round_double x" and "round_double x \<le> 2 powr real_of_int b"
proof -
  note r = round_double_range [OF assms(1,2,3)]
  show "2 powr real_of_int a \<le> round_double x" by (rule r(1))
  show "round_double x \<le> 2 powr real_of_int b" by (rule r(2))
  have "0 < 2 powr real_of_int a" by simp
  with r(1) have lo: "0 < round_double x" by linarith
  have "(2::real) powr real_of_int b \<le> 2 powr real_of_int 1023"
    using assms(4) by (intro powr_mono) simp_all
  also have "\<dots> < 2 powr real_of_int 1024" by (intro powr_less_mono) simp_all
  also have "\<dots> = 2 ^ 1024" using pow2_int [of 1024] by simp
  finally have "2 powr real_of_int b < (2::real) ^ 1024" .
  with r(2) have hi: "round_double x < 2 ^ 1024" by linarith
  have "- (2 ^ 1024) < (0::real)" by simp
  with lo have "- (2 ^ 1024) < round_double x" by linarith
  then show "to_double x = Fin (round_double x)" using hi by (rule to_double_finite)
qed

lemma to_double_0: "to_double 0 = Fin 0"
  by (simp add: to_double_def round_double_def)

lemma to_double_int:
  assumes "\<bar>k\<bar> \<le> 2 ^ 53"
  shows "to_double (real_of_int k) = Fin (real_of_int k)"
proof -
  have r: "round_double (real_of_int k) = real_of_int k" using assms by (rule round_double_int)
  have "real_of_int \<bar>k\<bar> \<le> real_of_int (2 ^ 53)" using assms by (simp only: of_int_le_iff)
  then have b: "\<bar>real_of_int k\<bar> \<le> 2 ^ 53" by simp
  have "(2::real) ^ 53 < 2 ^ 1024" by simp
  with b have "- (2 ^ 1024) < real_of_int k" "real_of_int k < 2 ^ 1024" by linarith+
  then show ?thesis using r by (simp add: to_double_def Let_def)
qed

lemma to_double_minus:
  "to_double (- x) = (case to_double x of Fin y \<Rightarrow> Fin (- y) | PosInf \<Rightarrow> NegInf | NegInf \<Rightarrow> PosInf)"
  by (simp add: to_double_def Let_def round_double_minus)

subsection \<open>The float operations of the chunk splitter within their range\<close>

lemma round_double_ge:
  assumes "- 1022 \<le> a" and "2 powr real_of_int a \<le> x"
  shows "2 powr real_of_int a \<le> round_double x"
proof -
  have "0 < 2 powr real_of_int a" by simp
  with assms(2) have pos: "0 < x" by linarith
  let ?l = "\<lfloor>log 2 x\<rfloor>"
  have al: "a \<le> ?l" using assms(2) by (rule floor_log2_ge)
  with assms(1) have l: "- 1022 \<le> ?l" by linarith
  note bin = round_double_binade [OF l log2_lower [OF pos] log2_upper [OF pos]]
  have "2 powr real_of_int a \<le> 2 powr real_of_int ?l" using al by (simp add: powr_mono)
  with bin(1) show ?thesis by linarith
qed

lemma pow2_neg: "(2::real) powr real_of_int (- int n) = 1 / 2 ^ n"
proof -
  have "(2::real) powr real_of_int (- int n) = 2 powr (- real n)" by simp
  also have "\<dots> = 1 / 2 powr real n" by (rule powr_minus_divide)
  also have "(2::real) powr real n = 2 ^ n" by (simp add: powr_realpow)
  finally show ?thesis .
qed

lemma pow2_nat: "(2::real) powr real_of_int (int n) = 2 ^ n"
  by (simp add: powr_realpow)

lemma to_double_quotient:
  assumes "2 powr real_of_int a \<le> x" and "x \<le> 2 powr real_of_int b"
    and "2 powr real_of_int c \<le> y" and "y \<le> 2 powr real_of_int d"
    and "- 1022 \<le> a - d" and "b - c \<le> 1023"
  shows "to_double (x / y) = Fin (round_double (x / y))"
    and "2 powr real_of_int (a - d) \<le> round_double (x / y)"
    and "round_double (x / y) \<le> 2 powr real_of_int (b - c)"
proof -
  note q = quotient_range [OF assms(1,2,3,4)]
  have lo: "2 powr real_of_int (a - d) \<le> x / y" using q(1) by simp
  have hi: "x / y \<le> 2 powr real_of_int (b - c)" using q(2) by simp
  note r = to_double_range [OF assms(5) lo hi assms(6)]
  show "to_double (x / y) = Fin (round_double (x / y))" by (rule r(1))
  show "2 powr real_of_int (a - d) \<le> round_double (x / y)" by (rule r(2))
  show "round_double (x / y) \<le> 2 powr real_of_int (b - c)" by (rule r(3))
qed

lemma file_size_kb_range:
  assumes "0 < size_bytes" and "size_bytes < 2 ^ 63"
  shows "calc_file_size_kb size_bytes = Inr (spec_file_size_kb size_bytes)"
    and "2 powr real_of_int (- 10) \<le> spec_file_size_kb size_bytes"
    and "spec_file_size_kb size_bytes \<le> 2 powr real_of_int 53"
proof -
  let ?x = "real size_bytes / 1024"
  have "1 \<le> real size_bytes" using assms(1) by simp
  then have "1 / 2 ^ 10 \<le> ?x" by simp
  then have lo: "2 powr real_of_int (- 10) \<le> ?x" using pow2_neg [of 10] by simp
  have "real size_bytes < real (2 ^ 63)" using assms(2) by (simp only: of_nat_less_iff)
  then have "?x \<le> 2 ^ 53" by simp
  then have hi: "?x \<le> 2 powr real_of_int 53" using pow2_nat [of 53] by simp
  have a: "- 1022 \<le> (- 10::int)" and b: "(53::int) \<le> 1023" by simp_all
  note r = to_double_range [OF a lo hi b]
  show "calc_file_size_kb size_bytes = Inr (spec_file_size_kb size_bytes)"
    using r(1) by (simp add: calc_file_size_kb_def int_truediv_def spec_file_size_kb_def)
  show "2 powr real_of_int (- 10) \<le> spec_file_size_kb size_bytes"
    unfolding spec_file_size_kb_def by (rule r(2))
  show "spec_file_size_kb size_bytes \<le> 2 powr real_of_int 53"
    unfolding spec_file_size_kb_def by (rule r(3))
qed

lemma duration_range:
  assumes "1 / 2 ^ 64 \<le> dur_seconds" and "dur_seconds \<le> 2 ^ 64"
  shows "calc_duration dur_seconds = Fin (spec_duration_ms dur_seconds)"
    and "2 powr real_of_int (- 55) \<le> spec_duration_ms dur_seconds"
    and "spec_duration_ms dur_seconds \<le> 2 powr real_of_int 74"
proof -
  let ?x = "dur_seconds * 1000"
  have "1 / 2 ^ 55 \<le> ?x" using assms(1) by simp
  then have lo: "2 powr real_of_int (- 55) \<le> ?x" using pow2_neg [of 55] by simp
  have "?x \<le> 2 ^ 74" using assms(2) by simp
  then have hi: "?x \<le> 2 powr real_of_int 74" using pow2_nat [of 74] by simp
  have a: "- 1022 \<le> (- 55::int)" and b: "(74::int) \<le> 1023" by simp_all
  note r = to_double_range [OF a lo hi b]
  show "calc_duration dur_seconds = Fin (spec_duration_ms dur_seconds)"
    using r(1) by (simp add: calc_duration_def float_mul_def spec_duration_ms_def)
  show "2 powr real_of_int (- 55) \<le> spec_duration_ms dur_seconds"
    unfolding spec_duration_ms_def by (rule r(2))
  show "spec_duration_ms dur_seconds \<le> 2 powr real_of_int 74"
    unfolding spec_duration_ms_def by (rule r(3))
qed

lemma ms_per_ceiling:
  assumes "2 powr real_of_int (- 55) \<le> d" and "d \<le> 2 powr real_of_int 74"
    and "2 powr real_of_int (- 10) \<le> kb" and "kb \<le> 2 powr real_of_int 53"
  shows "float_truediv (Fin d) kb = Inr (Fin (round_double (d / kb)))"
    and "1 \<le> \<lceil>round_double (d / kb)\<rceil>"
    and "\<lceil>round_double (d / kb)\<rceil> \<le> 2 ^ 84"
proof -
  have a: "- 1022 \<le> (- 55::int) - 53" and b: "(74::int) - (- 10) \<le> 1023" by simp_all
  note r = to_double_quotient [OF assms a b]
  have "0 < (2::real) powr real_of_int (- 10)" by simp
  with assms(3) have kb: "kb \<noteq> 0" by linarith
  show "float_truediv (Fin d) kb = Inr (Fin (round_double (d / kb)))"
    using kb r(1) by (simp add: float_truediv_def)
  have "0 < (2::real) powr real_of_int (- 55 - 53)" by simp
  with r(2) have "0 < round_double (d / kb)" by linarith
  then have "0 < \<lceil>round_double (d / kb)\<rceil>" by (simp only: zero_less_ceiling)
  then show "1 \<le> \<lceil>round_double (d / kb)\<rceil>" by simp
  have "(2::real) powr real_of_int (74 - (- 10)) = real_of_int (2 ^ 84)"
    using pow2_int [of 84] by simp
  with r(3) have "round_double (d / kb) \<le> real_of_int (2 ^ 84)" by simp
  then show "\<lceil>round_double (d / kb)\<rceil> \<le> 2 ^ 84" by (simp only: ceiling_le_iff)
qed

lemma float_of_int_pos:
  assumes "1 \<le> k" and "k \<le> 2 ^ 596"
  shows "float_of_int k = Inr (round_double (real_of_int k))"
    and "2 powr real_of_int 0 \<le> round_double (real_of_int k)"
    and "round_double (real_of_int k) \<le> 2 powr real_of_int 596"
proof -
  have lo: "2 powr real_of_int 0 \<le> real_of_int k" using assms(1) by simp
  have "real_of_int k \<le> real_of_int (2 ^ 596)" using assms(2) by (simp only: of_int_le_iff)
  then have hi: "real_of_int k \<le> 2 powr real_of_int 596" using pow2_int [of 596] by simp
  have a: "- 1022 \<le> (0::int)" and b: "(596::int) \<le> 1023" by simp_all
  note r = to_double_range [OF a lo hi b]
  show "float_of_int k = Inr (round_double (real_of_int k))"
    using r(1) by (simp add: float_of_int_def)
  show "2 powr real_of_int 0 \<le> round_double (real_of_int k)" by (rule r(2))
  show "round_double (real_of_int k) \<le> 2 powr real_of_int 596" by (rule r(3))
qed

lemma calc_num_chunks_pos:
  assumes "2 powr real_of_int (- 55) \<le> d" and "d \<le> 2 powr real_of_int 74"
    and "1 \<le> ms" and "ms \<le> 2 ^ 596"
  shows "calc_num_chunks (Fin d) ms = Inr \<lceil>round_double (d / round_double (real_of_int ms))\<rceil>"
    and "1 \<le> \<lceil>round_double (d / round_double (real_of_int ms))\<rceil>"
proof -
  let ?m = "round_double (real_of_int ms)"
  note f = float_of_int_pos [OF assms(3,4)]
  have a: "- 1022 \<le> (- 55::int) - 596" and b: "(74::int) - 0 \<le> 1023" by simp_all
  note r = to_double_quotient [OF assms(1,2) f(2,3) a b]
  have "0 < (2::real) powr real_of_int 0" by simp
  with f(2) have m: "?m \<noteq> 0" by linarith
  show "calc_num_chunks (Fin d) ms = Inr \<lceil>round_double (d / ?m)\<rceil>"
    using m by (simp add: calc_num_chunks_def f(1) float_truediv_def r(1) py_ceil_def)
  have "0 < (2::real) powr real_of_int (- 55 - 596)" by simp
  with r(2) have "0 < round_double (d / ?m)" by linarith
  then have "0 < \<lceil>round_double (d / ?m)\<rceil>" by (simp only: zero_less_ceiling)
  then show "1 \<le> \<lceil>round_double (d / ?m)\<rceil>" by simp
qed

lemma calc_num_chunks_neg:
  assumes "2 powr real_of_int (- 55) \<le> d" and "d \<le> 2 powr real_of_int 74"
    and "ms \<le> - 1" and "- (2 ^ 596) \<le> ms"
  shows "calc_num_chunks (Fin d) ms = Inr \<lceil>round_double (d / round_double (real_of_int ms))\<rceil>"
    and "\<lceil>round_double (d / round_double (real_of_int ms))\<rceil> \<le> 0"
proof -
  define k where "k = - ms"
  have k: "1 \<le> k" "k \<le> 2 ^ 596" using assms(3,4) by (simp_all add: k_def)
  let ?m = "round_double (real_of_int k)"
  note f = float_of_int_pos [OF k]
  have a: "- 1022 \<le> (- 55::int) - 596" and b: "(74::int) - 0 \<le> 1023" by simp_all
  note r = to_double_quotient [OF assms(1,2) f(2,3) a b]
  have "0 < (2::real) powr real_of_int 0" by simp
  with f(2) have m: "?m \<noteq> 0" by linarith
  have ms: "real_of_int ms = - real_of_int k" by (simp add: k_def)
  have rm: "round_double (real_of_int ms) = - ?m" by (simp only: ms round_double_minus)
  have td: "to_double (real_of_int ms) = Fin (- ?m)"
    using f(1) by (simp add: ms to_double_minus float_of_int_def split: pyfloat.splits)
  have q: "d / - ?m = - (d / ?m)" by simp
  have tq: "to_double (d / - ?m) = Fin (- round_double (d / ?m))"
    by (simp only: q to_double_minus r(1) pyfloat.case)
  have rq: "round_double (d / - ?m) = - round_double (d / ?m)"
    by (simp only: q round_double_minus)
  have tq': "to_double (- (d / ?m)) = Fin (- round_double (d / ?m))"
    by (simp only: to_double_minus r(1) pyfloat.case)
  show "calc_num_chunks (Fin d) ms = Inr \<lceil>round_double (d / round_double (real_of_int ms))\<rceil>"
    using m
    by (simp add: calc_num_chunks_def float_of_int_def td float_truediv_def tq' py_ceil_def rm
        round_double_minus)
  have "0 < (2::real) powr real_of_int (- 55 - 596)" by simp
  with r(2) have "0 < round_double (d / ?m)" by linarith
  then have "- round_double (d / ?m) \<le> 0" by simp
  then have "\<lceil>- round_double (d / ?m)\<rceil> \<le> 0" by (simp only: ceiling_le_zero)
  then show "\<lceil>round_double (d / round_double (real_of_int ms))\<rceil> \<le> 0" by (simp only: rm rq)
qed

lemma calc_num_chunks_zero: "calc_num_chunks (Fin d) 0 = Inl ZeroDivisionError"
  by (simp add: calc_num_chunks_def float_of_int_def to_double_0 float_truediv_def)

subsection \<open>Values of the float operations\<close>

text \<open>
  Two integers half-way between neighbouring doubles: each goes to the neighbour whose
  last bit is 0, as \<open>float(2 ** 53 + 1)\<close> and \<open>float(2 ** 53 + 3)\<close> do.
\<close>

lemma round_double_ties:
  "round_double 9007199254740993 = 9007199254740992"
  "round_double 9007199254740995 = 9007199254740996"
proof -
  have a: "- 1022 \<le> (53::int)" by simp
  have b: "2 powr real_of_int 53 \<le> \<bar>9007199254740993 :: real\<bar>"
    "2 powr real_of_int 53 \<le> \<bar>9007199254740995 :: real\<bar>" by simp_all
  have c: "\<bar>9007199254740993 :: real\<bar> < 2 powr (real_of_int 53 + 1)"
    "\<bar>9007199254740995 :: real\<bar> < 2 powr (real_of_int 53 + 1)" by simp_all
  show "round_double 9007199254740993 = 9007199254740992"
    using round_double_eval [OF a b(1) c(1)] by (simp add: round_half_even_def Let_def)
  show "round_double 9007199254740995 = 9007199254740996"
    using round_double_eval [OF a b(2) c(2)] by (simp add: round_half_even_def Let_def)
qed

lemma round_double_eval_pow:
  assumes "- 1022 \<le> e" and "e \<le> 52"
    and "2 powr real_of_int e \<le> \<bar>x\<bar>" and "\<bar>x\<bar> < 2 powr (real_of_int e + 1)"
  shows "round_double x =
           real_of_int (round_half_even (x * 2 ^ nat (52 - e))) / 2 ^ nat (52 - e)"
proof -
  have "real_of_int e - 52 = real_of_int (- int (nat (52 - e)))" using assms(2) by simp
  then have "2 powr (real_of_int e - 52) = 1 / 2 ^ nat (52 - e)" by (simp only: pow2_neg)
  then show ?thesis using round_double_eval [OF assms(1,3,4)] by simp
qed

lemma round_double_eval_subnormal:
  assumes "\<bar>x\<bar> < 2 powr (- 1022)"
  shows "round_double x = real_of_int (round_half_even (x * 2 ^ 1074)) / 2 ^ 1074"
proof (cases "x = 0")
  case True
  then show ?thesis using round_half_even_of_int [of 0] by (simp add: round_double_def)
next
  case False
  then have pos: "0 < \<bar>x\<bar>" by simp
  have "\<bar>x\<bar> < 2 powr real_of_int (- 1022)" using assms by simp
  with pos have "\<lfloor>log 2 \<bar>x\<bar>\<rfloor> < - 1022" by (rule floor_log2_less)
  then have "\<lfloor>log 2 \<bar>x\<bar>\<rfloor> \<le> - 1022" by simp
  then have "exponent x = - 1022" by (rule exponent_subnormal)
  then have "ulp x = 2 powr real_of_int (- int 1074)" by (simp add: ulp_def)
  then have u: "ulp x = 1 / 2 ^ 1074" by (simp only: pow2_neg)
  define P :: real where "P = 2 ^ 1074"
  have "round_double x = real_of_int (round_half_even (x / (1 / P))) * (1 / P)"
    using False by (simp only: round_double_def u P_def if_False)
  then have "round_double x = real_of_int (round_half_even (x * P)) / P" by simp
  then show ?thesis by (simp only: P_def)
qed

lemma round_half_even_small:
  assumes "\<bar>y\<bar> < 1 / 2"
  shows "round_half_even y = 0"
proof -
  have "real_of_int (round_half_even y) \<le> y + 1 / 2" by (rule round_half_even_upper)
  with assms have "real_of_int (round_half_even y) < 1" by linarith
  then have a: "round_half_even y < 1" by linarith
  have "y - 1 / 2 \<le> real_of_int (round_half_even y)" by (rule round_half_even_lower)
  with assms have "- 1 < real_of_int (round_half_even y)" by linarith
  then have "- 1 < round_half_even y" by linarith
  with a show ?thesis by linarith
qed

lemma round_double_underflow:
  assumes "\<bar>x\<bar> < 1 / 2 ^ 1075"
  shows "round_double x = 0"
proof -
  define P :: real where "P = 2 ^ 1074"
  have P: "0 < P" by (simp add: P_def)
  have h: "1 / 2 ^ 1075 = 1 / (2 * P)" by (simp add: P_def)
  have x: "\<bar>x\<bar> < 1 / (2 * P)" using assms by (simp only: h)
  have "(1::real) / (2 * P) \<le> 1 / P" using P by (simp add: field_simps)
  also have "1 / P = 2 powr real_of_int (- int 1074)" by (simp only: pow2_neg P_def)
  also have "\<dots> \<le> 2 powr real_of_int (- 1022)" by (intro powr_mono) simp_all
  finally have "\<bar>x\<bar> < 2 powr (- 1022)" using x by simp
  then have r: "round_double x = real_of_int (round_half_even (x * P)) / P"
    unfolding P_def by (rule round_double_eval_subnormal)
  have "\<bar>x\<bar> * P < 1 / (2 * P) * P" using x P by (rule mult_strict_right_mono)
  then have "\<bar>x * P\<bar> < 1 / 2" using P by (simp add: abs_mult)
  then have "round_half_even (x * P) = 0" by (rule round_half_even_small)
  with r show ?thesis by simp
qed

lemma round_double_dyadic:
  assumes k: "\<bar>k\<bar> < 2 ^ 53" and n: "n \<le> 1074"
  shows "round_double (real_of_int k / 2 ^ n) = real_of_int k / 2 ^ n"
proof (cases "k = 0")
  case True
  then show ?thesis by (simp add: round_double_def)
next
  case False
  let ?x = "real_of_int k / 2 ^ n"
  have xne: "?x \<noteq> 0" using False by simp
  then have pos: "0 < \<bar>?x\<bar>" by simp
  have pn: "(2::real) ^ n = 2 powr real_of_int (int n)" by (simp only: pow2_nat)
  have "real_of_int \<bar>k\<bar> < real_of_int (2 ^ 53)" using k by (simp only: of_int_less_iff)
  then have "\<bar>real_of_int k\<bar> < 2 powr real_of_int 53" using pow2_int [of 53] by simp
  then have "\<bar>real_of_int k\<bar> / 2 powr real_of_int (int n) < 2 powr (real_of_int 53 - real_of_int (int n))"
    by (rule powr_scale_less)
  then have "\<bar>?x\<bar> < 2 powr real_of_int (53 - int n)" by (simp add: pn)
  with pos have l: "\<lfloor>log 2 \<bar>?x\<bar>\<rfloor> < 53 - int n" by (rule floor_log2_less)
  define E where "E = exponent ?x"
  have E: "E \<le> 52 - int n" using l n by (simp add: E_def exponent_def)
  define j where "j = nat (52 - int n - E)"
  have j: "52 - int n - E = int j" using E by (simp add: j_def)
  have "real_of_int E - 52 = real_of_int (- int n) - real_of_int (int j)" using j by simp
  then have "ulp ?x = 2 powr (real_of_int (- int n) - real_of_int (int j))"
    by (simp add: ulp_def E_def)
  also have "\<dots> = 2 powr real_of_int (- int n) / 2 powr real_of_int (int j)" by (rule powr_diff)
  also have "\<dots> = 1 / 2 ^ n / 2 ^ j" by (simp only: pow2_neg pow2_nat)
  finally have u: "ulp ?x = 1 / 2 ^ n / 2 ^ j" .
  have "?x / ulp ?x = real_of_int (k * 2 ^ j)" by (simp add: u)
  then show ?thesis by (rule round_double_exact)
qed

lemma to_double_overflow:
  assumes "2 ^ 1024 \<le> x"
  shows "to_double x = PosInf"
proof -
  have p: "(2::real) powr real_of_int 1024 = 2 ^ 1024" using pow2_int [of 1024] by simp
  have a: "- 1022 \<le> (1024::int)" by simp
  have "2 powr real_of_int 1024 \<le> x" using assms by (simp only: p)
  with a have "2 powr real_of_int 1024 \<le> round_double x" by (rule round_double_ge)
  then have "2 ^ 1024 \<le> round_double x" by (simp only: p)
  then show ?thesis by (simp add: to_double_def Let_def)
qed

lemma to_double_numeral:
  assumes "(numeral n :: int) \<le> 2 ^ 53"
  shows "to_double (numeral n) = Fin (numeral n)"
  using to_double_int [of "numeral n"] assms by simp

lemma to_double_1: "to_double 1 = Fin 1"
  using to_double_int [of 1] by simp

lemma round_double_numeral:
  assumes "(numeral n :: int) \<le> 2 ^ 53"
  shows "round_double (numeral n) = numeral n"
  using round_double_int [of "numeral n"] assms by simp

lemmas float_eval = calc_file_size_kb_def calc_duration_def calc_ms_per_chunk_def
  calc_num_chunks_def chunk_plan_def int_truediv_def float_mul_def float_truediv_def
  float_of_int_def py_ceil_def int_of_product_def to_double_numeral to_double_1 to_double_0
  to_double_minus

lemma chunk_plan_example: "chunk_plan py 1024000 10 (PInt 100) = Inr (1000, 10)"
  by (simp add: float_eval)

lemma to_double_dyadic:
  assumes "\<bar>k\<bar> < 2 ^ 53" and "n \<le> 1074"
  shows "to_double (real_of_int k / 2 ^ n) = Fin (real_of_int k / 2 ^ n)"
proof -
  have n: "n \<le> 1074" using assms(2) .
  have r: "round_double (real_of_int k / 2 ^ n) = real_of_int k / 2 ^ n"
    using assms(1) n by (rule round_double_dyadic)
  have "real_of_int \<bar>k\<bar> < real_of_int (2 ^ 53)" using assms(1) by (simp only: of_int_less_iff)
  then have b: "\<bar>real_of_int k\<bar> < 2 ^ 53" by simp
  have "\<bar>real_of_int k / 2 ^ n\<bar> = \<bar>real_of_int k\<bar> / 2 ^ n" by simp
  also have "\<dots> \<le> \<bar>real_of_int k\<bar> / 1" by (intro divide_left_mono) simp_all
  finally have "\<bar>real_of_int k / 2 ^ n\<bar> < 2 ^ 53" using b by simp
  moreover have "(2::real) ^ 53 < 2 ^ 1024" by simp
  ultimately have "- (2 ^ 1024) < real_of_int k / 2 ^ n" "real_of_int k / 2 ^ n < 2 ^ 1024"
    by linarith+
  then show ?thesis using r by (simp add: to_double_def Let_def)
qed

lemma to_double_3_2: "to_double (3 / 2) = Fin (3 / 2)"
  using to_double_dyadic [of 3 1] by simp

lemma chunk_plan_ceiling_first: "chunk_plan py 1024000 (3 / 2) (PInt 2) = Inr (4, 375)"
  by (simp add: float_eval to_double_3_2)

lemma chunk_plan_negative: "chunk_plan py 1024000 10 (PInt (- 1)) = Inr (- 10, - 1000)"
  by (simp add: float_eval)

lemma round_double_10_3: "round_double (10 / 3) = 7505999378950827 / 2251799813685248"
proof -
  have a: "- 1022 \<le> (1::int)" "(1::int) \<le> 52" by simp_all
  have b: "2 powr real_of_int 1 \<le> \<bar>10 / 3 :: real\<bar>" by simp
  have c: "\<bar>10 / 3 :: real\<bar> < 2 powr (real_of_int 1 + 1)" by simp
  show ?thesis
    using round_double_eval_pow [OF a b c] by (simp add: round_half_even_def Let_def)
qed

lemma demo_plan: "chunk_plan py 1024000 10 (PInt 300) = Inr (3000, 4)"
proof -
  have "to_double (10 / 3) = Fin (7505999378950827 / 2251799813685248)"
    by (simp add: to_double_def round_double_10_3)
  then show ?thesis by (simp add: float_eval)
qed

lemma to_double_zero_of_underflow:
  assumes "\<bar>x\<bar> < 1 / 2 ^ 1075"
  shows "to_double x = Fin 0"
  using round_double_underflow [OF assms] by (simp add: to_double_def)

lemma tenth_duration: "calc_duration (3602879701896397 / 36028797018963968) = Fin 100"
proof -
  let ?x = "3602879701896397 / 36028797018963968 * 1000 :: real"
  have a: "- 1022 \<le> (6::int)" "(6::int) \<le> 52" by simp_all
  have b: "2 powr real_of_int 6 \<le> \<bar>?x\<bar>" by simp
  have c: "\<bar>?x\<bar> < 2 powr (real_of_int 6 + 1)" by simp
  have "round_double ?x = 100"
    using round_double_eval_pow [OF a b c] by (simp add: round_half_even_def Let_def)
  then have "to_double ?x = Fin 100" by (simp add: to_double_def)
  then show ?thesis by (simp only: calc_duration_def float_mul_def)
qed

lemma to_double_tenth: "to_double (1 / 10) = Fin (3602879701896397 / 36028797018963968)"
proof -
  have a: "- 1022 \<le> (- 4::int)" "(- 4::int) \<le> 52" by simp_all
  have b: "2 powr real_of_int (- 4) \<le> \<bar>1 / 10 :: real\<bar>" using pow2_neg [of 4] by simp
  have c: "\<bar>1 / 10 :: real\<bar> < 2 powr (real_of_int (- 4) + 1)" using pow2_neg [of 3] by simp
  have "round_double (1 / 10) = 3602879701896397 / 36028797018963968"
    using round_double_eval_pow [OF a b c] by (simp add: round_half_even_def Let_def)
  then show ?thesis by (simp add: to_double_def)
qed

lemmas plan_eval = calc_file_size_kb_def calc_ms_per_chunk_def
  calc_num_chunks_def chunk_plan_def int_truediv_def float_truediv_def
  float_of_int_def py_ceil_def int_of_product_def to_double_numeral to_double_1 to_double_0
  to_double_minus

lemma chunk_plan_tenth:
  "chunk_plan py 1024000 (3602879701896397 / 36028797018963968) (PInt 10) = Inr (10, 10)"
  by (simp add: plan_eval tenth_duration to_double_tenth)

lemma chunk_plan_overflow: "chunk_plan py 1024000 10 (PInt (2 ^ 1024)) = Inl OverflowError"
proof -
  have ms: "calc_ms_per_chunk py (Fin 10000) 1000 (PInt (2 ^ 1024)) = Inr (10 * 2 ^ 1024)"
    by (simp add: float_eval)
  have "(2::real) ^ 1024 \<le> real_of_int (10 * 2 ^ 1024)" by simp
  then have "to_double (real_of_int (10 * 2 ^ 1024)) = PosInf" by (rule to_double_overflow)
  then have n: "calc_num_chunks (Fin 10000) (10 * 2 ^ 1024) = Inl OverflowError"
    by (simp only: calc_num_chunks_def float_of_int_def pyfloat.case sum.case)
  have kb: "calc_file_size_kb 1024000 = Inr 1000" by (simp add: float_eval)
  have d: "calc_duration 10 = Fin 10000" by (simp add: float_eval)
  show ?thesis by (simp only: chunk_plan_def kb d ms n Let_def sum.case)
qed

lemma smallest_duration: "calc_duration smallest_float = Fin (1000 * smallest_float)"
proof -
  have e: "smallest_float * 1000 = real_of_int 1000 / 2 ^ 1074" by (simp add: smallest_float_def)
  have k: "\<bar>1000::int\<bar> < 2 ^ 53" and n: "(1074::nat) \<le> 1074" by simp_all
  have "to_double (real_of_int 1000 / 2 ^ 1074) = Fin (real_of_int 1000 / 2 ^ 1074)"
    using k n by (rule to_double_dyadic)
  then have "to_double (smallest_float * 1000) = Fin (smallest_float * 1000)" by (simp only: e)
  then show ?thesis by (simp add: calc_duration_def float_mul_def mult.commute)
qed

lemma smallest_quotient: "to_double (125 * smallest_float / 131072) = Fin 0"
proof -
  have "\<bar>125 * smallest_float / 131072\<bar> < 1 / 2 ^ 1075" by (simp add: smallest_float_def)
  then show ?thesis by (rule to_double_zero_of_underflow)
qed




lemma chunk_plan_underflow_zero:
  "chunk_plan py 1073741824 smallest_float (PInt 100) = Inl ZeroDivisionError"
  by (simp add: plan_eval smallest_duration smallest_quotient)

section \<open>Properties of the conversion \<open>int(x)\<close>\<close>

lemma is_digit_not_space: "is_digit c \<Longrightarrow> \<not> is_space c"
  by (auto simp: is_digit_def is_space_def)

lemma is_digit_not_sign: "is_digit c \<Longrightarrow> c \<noteq> CHR ''-'' \<and> c \<noteq> CHR ''+''"
  by (auto simp: is_digit_def)

lemma digits_value_all_digits:
  "list_all is_digit s \<Longrightarrow>
   digits_value acc s = Some (foldl (\<lambda>acc c. 10 * acc + digit_val c) acc s)"
  by (induction s arbitrary: acc) simp_all

lemma strip_digits:
  assumes "list_all is_digit s"
  shows "strip s = s"
proof (cases "s = []")
  case True
  then show ?thesis by (simp add: strip_def)
next
  case False
  then have "is_digit (hd s)" and "is_digit (last s)"
    using assms by (simp_all add: list_all_iff)
  then have h: "\<not> is_space (hd s)" and l: "\<not> is_space (last s)"
    by (simp_all add: is_digit_not_space)
  from h False have 1: "dropWhile is_space s = s"
    by (cases s) simp_all
  from l False have 2: "dropWhile is_space (rev s) = rev s"
    by (cases "rev s") (simp_all add: last_rev [symmetric] hd_rev)
  show ?thesis by (simp add: strip_def 1 2)
qed

lemma filter_all_digits: "list_all is_digit s \<Longrightarrow> filter is_digit s = s"
  by (induction s) simp_all

lemma int_of_str_digits:
  assumes "s \<noteq> []" and "list_all is_digit s"
    and "int_max_str_digits py = 0 \<or> length s \<le> 640 \<or> length s \<le> int_max_str_digits py"
  shows "int_of_str py s = Inr (int (digits_number s))"
proof -
  from assms obtain c cs where s: "s = c # cs" by (cases s) auto
  with assms(2) have c: "is_digit c" by simp
  then have sign: "c \<noteq> CHR ''-''" "c \<noteq> CHR ''+''" by (simp_all add: is_digit_not_sign)
  have f: "length (filter is_digit s) = length s" using assms(2) by (simp only: filter_all_digits)
  have lim: "\<not> (0 < int_max_str_digits py \<and> 640 < length s \<and> int_max_str_digits py < length s)"
    using assms(3) by linarith
  have dv: "digits_value 0 s = Some (digits_number s)"
    using digits_value_all_digits [OF assms(2), of 0] by (simp add: digits_number_def)
  have hd: "\<not> (s = [] \<or> \<not> is_digit (hd s))" using c s by simp
  have "unsigned_of_str py s = Inr (int (digits_number s))"
    unfolding unsigned_of_str_def using hd dv f lim by (simp add: Let_def)
  then show ?thesis
    using sign s strip_digits [OF assms(2)] by (simp add: int_of_str_def)
qed

lemma int_of_str_too_long:
  assumes "list_all is_digit s"
    and "0 < int_max_str_digits py" and "640 < length s" and "int_max_str_digits py < length s"
  shows "int_of_str py s = Inl ValueError"
proof -
  from assms(3) obtain c cs where s: "s = c # cs" by (cases s) auto
  with assms(1) have c: "is_digit c" by simp
  then have sign: "c \<noteq> CHR ''-''" "c \<noteq> CHR ''+''" by (simp_all add: is_digit_not_sign)
  have f: "length (filter is_digit s) = length s" using assms(1) by (simp only: filter_all_digits)
  have "unsigned_of_str py s = Inl ValueError"
    unfolding unsigned_of_str_def using assms(2,3,4) f by (simp add: Let_def split: option.splits)
  then show ?thesis
    using sign s strip_digits [OF assms(1)] by (simp add: int_of_str_def)
qed

lemma length_concat_replicate: "length (concat (replicate n s)) = n * length s"
  by (induction n) simp_all

lemma str_repeat_fits:
  assumes "1 \<le> n" and "nat n * length s \<le> max_str_length py" and "max_str_length py < 2 ^ 63"
    and "s \<noteq> []"
  shows "str_repeat py n s = Inr (concat (replicate (nat n) s))"
proof -
  have len: "1 \<le> length s" using assms(4) by (cases s) simp_all
  have N: "nat n * length s < 2 ^ 63" using assms(2,3) by linarith
  have "nat n * 1 \<le> nat n * length s" using len by (rule mult_le_mono2)
  then have "nat n \<le> nat n * length s" by (simp only: mult_1_right)
  with N have n63: "nat n < 2 ^ 63" by linarith
  then have "int (nat n) < int (2 ^ 63)" by (simp only: of_nat_less_iff)
  then have hi: "n < 2 ^ 63" using assms(1) by simp
  have "length s * nat n \<le> 2 ^ 63 - 1" using N by (simp add: mult.commute)
  moreover have "0 < nat n" using assms(1) by simp
  ultimately have "length s \<le> (2 ^ 63 - 1) div nat n" by (simp only: less_eq_div_iff_mult_less_eq)
  then have d: "\<not> (2 ^ 63 - 1) div nat n < length s" by simp
  have lo: "\<not> n < - (2 ^ 63)" using assms(1) by simp
  show ?thesis
  proof (cases "n = 1")
    case True
    then show ?thesis using lo by (simp add: str_repeat_def)
  next
    case False
    then show ?thesis using assms(1,2) lo hi d by (simp add: str_repeat_def)
  qed
qed

lemma int_of_str_samples:
  "int_of_str py '' 42 '' = Inr 42"
  "int_of_str py ''-7'' = Inr (- 7)"
  "int_of_str py ''+1_000'' = Inr 1000"
  "int_of_str py [CHR 0xA0, CHR ''7''] = Inr 7"
  "int_of_str py [CHR ''7'', CHR 0x85] = Inr 7"
  "int_of_str py [CHR 0x1F, CHR ''1''] = Inl ValueError"
  "int_of_str py ''1__0'' = Inl ValueError"
  "int_of_str py ''stereo'' = Inl ValueError"
  "int_of_str py [] = Inl ValueError"
  by (simp_all add: int_of_str_def strip_def is_space_def unsigned_of_str_def is_digit_def
      digit_val_def Let_def)

section \<open>Properties of the chunk splitter\<close>

lemma export_chunks_Inr:
  "export_chunks w a d ts fn ext ms i k chunks = (w', Inr cs) \<Longrightarrow>
     cs = chunks @ map (\<lambda>j. chunk_path d ts fn (i + int j) ext) [0..<k] \<and>
     w' = w\<lparr>written := written w @ map (\<lambda>j. chunk_export a d ts fn ext ms (i + int j)) [0..<k]\<rparr>"
proof (induction k arbitrary: w i chunks)
  case 0
  then show ?case by simp
next
  case (Suc k)
  from Suc.prems obtain
    rec: "export_chunks (w\<lparr>written := written w @ [chunk_export a d ts fn ext ms i]\<rparr>)
            a d ts fn ext ms (i + 1) k (chunks @ [chunk_path d ts fn i ext]) = (w', Inr cs)"
    by (auto simp: Let_def split: option.splits)
  from Suc.IH [OF rec] show ?case
    by (simp add: map_upt_Suc add.assoc del: upt_Suc)
qed

lemma export_chunks_no_error:
  "(\<And>p. export_error w p ext = None) \<Longrightarrow>
   export_chunks w a d ts fn ext ms i k chunks =
     (w\<lparr>written := written w @ map (\<lambda>j. chunk_export a d ts fn ext ms (i + int j)) [0..<k]\<rparr>,
      Inr (chunks @ map (\<lambda>j. chunk_path d ts fn (i + int j) ext) [0..<k]))"
proof (induction k arbitrary: w i chunks)
  case 0
  then show ?case by simp
next
  case (Suc k)
  have "\<And>p. export_error (w\<lparr>written := written w @ [chunk_export a d ts fn ext ms i]\<rparr>) p ext = None"
    using Suc.prems by simp
  from Suc.IH [OF this] Suc.prems show ?case
    by (simp add: Let_def map_upt_Suc add.assoc del: upt_Suc)
qed

lemma chunk_plan_int:
  assumes "0 < size_bytes" and "size_bytes < 2 ^ 63"
    and "1 / 2 ^ 64 \<le> dur" and "dur \<le> 2 ^ 64"
  shows "calc_ms_per_chunk py (calc_duration dur) (spec_file_size_kb size_bytes) (PInt c) =
           Inr (spec_ms_per_chunk (spec_duration_ms dur) (spec_file_size_kb size_bytes) c)"
    and "1 \<le> \<lceil>round_double (spec_duration_ms dur / spec_file_size_kb size_bytes)\<rceil>"
    and "\<lceil>round_double (spec_duration_ms dur / spec_file_size_kb size_bytes)\<rceil> \<le> 2 ^ 84"
    and "chunk_plan py size_bytes dur (PInt c) =
           (case calc_num_chunks (Fin (spec_duration_ms dur))
                   (spec_ms_per_chunk (spec_duration_ms dur) (spec_file_size_kb size_bytes) c) of
              Inl e \<Rightarrow> Inl e
            | Inr n \<Rightarrow>
                Inr (spec_ms_per_chunk (spec_duration_ms dur) (spec_file_size_kb size_bytes) c, n))"
proof -
  note kb = file_size_kb_range [OF assms(1,2)]
  note d = duration_range [OF assms(3,4)]
  note q = ms_per_ceiling [OF d(2,3) kb(2,3)]
  show ms: "calc_ms_per_chunk py (calc_duration dur) (spec_file_size_kb size_bytes) (PInt c) =
           Inr (spec_ms_per_chunk (spec_duration_ms dur) (spec_file_size_kb size_bytes) c)"
    by (simp add: calc_ms_per_chunk_def d(1) q(1) py_ceil_def int_of_product_def
        spec_ms_per_chunk_def)
  show "1 \<le> \<lceil>round_double (spec_duration_ms dur / spec_file_size_kb size_bytes)\<rceil>"
    by (rule q(2))
  show "\<lceil>round_double (spec_duration_ms dur / spec_file_size_kb size_bytes)\<rceil> \<le> 2 ^ 84"
    by (rule q(3))
  show "chunk_plan py size_bytes dur (PInt c) =
           (case calc_num_chunks (Fin (spec_duration_ms dur))
                   (spec_ms_per_chunk (spec_duration_ms dur) (spec_file_size_kb size_bytes) c) of
              Inl e \<Rightarrow> Inl e
            | Inr n \<Rightarrow>
                Inr (spec_ms_per_chunk (spec_duration_ms dur) (spec_file_size_kb size_bytes) c, n))"
    using ms by (simp add: chunk_plan_def kb(1) Let_def d(1))
qed

lemma chunk_plan_positive:
  assumes "0 < size_bytes" and "size_bytes < 2 ^ 63"
    and "1 / 2 ^ 64 \<le> dur" and "dur \<le> 2 ^ 64"
    and "0 < c" and "c \<le> 2 ^ 512"
  shows "chunk_plan py size_bytes dur (PInt c) =
           Inr (spec_ms_per_chunk (spec_duration_ms dur) (spec_file_size_kb size_bytes) c,
                spec_num_chunks (spec_duration_ms dur)
                  (spec_ms_per_chunk (spec_duration_ms dur) (spec_file_size_kb size_bytes) c))"
    and "0 < spec_ms_per_chunk (spec_duration_ms dur) (spec_file_size_kb size_bytes) c"
    and "0 < spec_num_chunks (spec_duration_ms dur)
               (spec_ms_per_chunk (spec_duration_ms dur) (spec_file_size_kb size_bytes) c)"
proof -
  let ?d = "spec_duration_ms dur"
  let ?kb = "spec_file_size_kb size_bytes"
  define k where "k = \<lceil>round_double (?d / ?kb)\<rceil>"
  note p = chunk_plan_int [OF assms(1,2,3,4)]
  note d = duration_range [OF assms(3,4)]
  have k1: "1 \<le> k" and k84: "k \<le> 2 ^ 84" using p(2,3) by (simp_all only: k_def)
  have ms: "spec_ms_per_chunk ?d ?kb c = k * c" by (simp only: spec_ms_per_chunk_def k_def)
  have c1: "1 \<le> c" using assms(5) by simp
  have "1 * 1 \<le> k * c" using k1 c1 by (intro mult_mono) simp_all
  then have lo: "1 \<le> k * c" by simp
  have "k * c \<le> 2 ^ 84 * 2 ^ 512" using k84 assms(6) k1 c1 by (intro mult_mono) simp_all
  then have hi: "k * c \<le> 2 ^ 596" by simp
  note n = calc_num_chunks_pos [OF d(2,3) lo hi]
  show "chunk_plan py size_bytes dur (PInt c) =
           Inr (spec_ms_per_chunk ?d ?kb c, spec_num_chunks ?d (spec_ms_per_chunk ?d ?kb c))"
    by (simp only: p(4) ms n(1) sum.case spec_num_chunks_def)
  show "0 < spec_ms_per_chunk ?d ?kb c" using lo by (simp only: ms)
  show "0 < spec_num_chunks ?d (spec_ms_per_chunk ?d ?kb c)"
    using n(2) by (simp only: ms spec_num_chunks_def)
qed

lemma chunk_plan_negative_range:
  assumes "0 < size_bytes" and "size_bytes < 2 ^ 63"
    and "1 / 2 ^ 64 \<le> dur" and "dur \<le> 2 ^ 64"
    and "c < 0" and "- (2 ^ 512) \<le> c"
  shows "\<exists>ms n. chunk_plan py size_bytes dur (PInt c) = Inr (ms, n) \<and> n \<le> 0"
proof -
  let ?d = "spec_duration_ms dur"
  let ?kb = "spec_file_size_kb size_bytes"
  define k where "k = \<lceil>round_double (?d / ?kb)\<rceil>"
  note p = chunk_plan_int [OF assms(1,2,3,4)]
  note d = duration_range [OF assms(3,4)]
  have k1: "1 \<le> k" and k84: "k \<le> 2 ^ 84" using p(2,3) by (simp_all only: k_def)
  have ms: "spec_ms_per_chunk ?d ?kb c = k * c" by (simp only: spec_ms_per_chunk_def k_def)
  have c1: "1 \<le> - c" using assms(5) by simp
  have c2: "- c \<le> 2 ^ 512" using assms(6) by simp
  have "1 * 1 \<le> k * (- c)" using k1 c1 by (intro mult_mono) simp_all
  then have hi: "k * c \<le> - 1" by simp
  have "k * (- c) \<le> 2 ^ 84 * 2 ^ 512" using k84 c2 k1 c1 by (intro mult_mono) simp_all
  then have lo: "- (2 ^ 596) \<le> k * c" by simp
  note n = calc_num_chunks_neg [OF d(2,3) hi lo]
  have "chunk_plan py size_bytes dur (PInt c) =
          Inr (k * c, \<lceil>round_double (?d / round_double (real_of_int (k * c)))\<rceil>)"
    by (simp only: p(4) ms n(1) sum.case)
  with n(2) show ?thesis by blast
qed

lemma chunk_plan_zero:
  assumes "0 < size_bytes" and "size_bytes < 2 ^ 63"
    and "1 / 2 ^ 64 \<le> dur" and "dur \<le> 2 ^ 64"
  shows "chunk_plan py size_bytes dur (PInt 0) = Inl ZeroDivisionError"
proof -
  note p = chunk_plan_int [OF assms(1,2,3,4)]
  have ms: "spec_ms_per_chunk (spec_duration_ms dur) (spec_file_size_kb size_bytes) 0 = 0"
    by (simp add: spec_ms_per_chunk_def)
  show ?thesis by (simp only: p(4) ms calc_num_chunks_zero sum.case)
qed

lemma upt_0_4: "[0..<4] = [0, 1, 2, 3::nat]"
  by (simp add: upt_rec)

lemma demo_name: "splitext (basename ''/in/song.mp3'') = (''song'', ''.mp3'')"
  by (simp add: basename_def splitext_def has_name_before_dot.simps)

lemma demo_time: "int_of_float (time_time demo_world) = 1700000000"
  by (simp add: demo_world_def int_of_float_def)

lemma world_of_fields:
  "from_file (world_of dur size_bytes) p = Inr (demo_audio\<lparr>duration_seconds := dur\<rparr>)"
  "getsize (world_of dur size_bytes) p = Inr size_bytes"
  "python (world_of dur size_bytes) = python demo_world"
  "written (world_of dur size_bytes) = []"
  by (simp_all add: world_of_def demo_world_def)

lemma to_double_Fin:
  assumes "to_double x = Fin y"
  shows "y = round_double x" and "round_double x < 2 ^ 1024" and "- (2 ^ 1024) < round_double x"
  using assms by (simp_all add: to_double_def Let_def split: if_splits)

lemma calc_num_chunks_Inr:
  assumes "calc_num_chunks (Fin d) ms = Inr n"
  shows "round_double (real_of_int ms) \<noteq> 0"
    and "round_double (real_of_int ms) < 2 ^ 1024"
    and "n = \<lceil>round_double (d / round_double (real_of_int ms))\<rceil>"
proof -
  from assms obtain m where m: "float_of_int ms = Inr m"
    by (auto simp: calc_num_chunks_def split: sum.splits)
  then obtain y where y: "to_double (real_of_int ms) = Fin y" and ym: "y = m"
    by (auto simp: float_of_int_def split: pyfloat.splits)
  note t = to_double_Fin [OF y]
  have mr: "m = round_double (real_of_int ms)" using t(1) ym by simp
  from assms m obtain r where r: "float_truediv (Fin d) m = Inr r" and c: "py_ceil r = Inr n"
    by (auto simp: calc_num_chunks_def split: sum.splits)
  from r have m0: "m \<noteq> 0" and rr: "r = to_double (d / m)"
    by (auto simp: float_truediv_def split: if_splits)
  from c obtain z where z: "r = Fin z" and n: "n = \<lceil>z\<rceil>"
    by (auto simp: py_ceil_def split: pyfloat.splits)
  from z rr have "to_double (d / m) = Fin z" by simp
  then have "z = round_double (d / m)" by (rule to_double_Fin(1))
  with n show "n = \<lceil>round_double (d / round_double (real_of_int ms))\<rceil>" by (simp add: mr)
  show "round_double (real_of_int ms) \<noteq> 0" using m0 mr by simp
  show "round_double (real_of_int ms) < 2 ^ 1024" by (rule t(2))
qed

lemma chunk_plan_Inr_int:
  assumes "chunk_plan py size_bytes dur (PInt c) = Inr (ms, n)"
  shows "ms = spec_ms_per_chunk (spec_duration_ms dur) (spec_file_size_kb size_bytes) c"
    and "n = spec_num_chunks (spec_duration_ms dur) ms"
proof -
  from assms obtain kb where kb: "calc_file_size_kb size_bytes = Inr kb"
    and ms: "calc_ms_per_chunk py (calc_duration dur) kb (PInt c) = Inr ms"
    and n: "calc_num_chunks (calc_duration dur) ms = Inr n"
    by (auto simp: chunk_plan_def Let_def split: sum.splits)
  from kb obtain y where "to_double (real size_bytes / 1024) = Fin y" and "y = kb"
    by (auto simp: calc_file_size_kb_def int_truediv_def split: if_splits pyfloat.splits)
  then have kbr: "kb = spec_file_size_kb size_bytes"
    using to_double_Fin(1) by (simp add: spec_file_size_kb_def)
  from ms obtain q k where q: "float_truediv (calc_duration dur) kb = Inr q"
    and k: "py_ceil q = Inr k" and p: "int_of_product py k (PInt c) = Inr ms"
    by (auto simp: calc_ms_per_chunk_def split: sum.splits)
  from k obtain z where z: "q = Fin z" and kz: "k = \<lceil>z\<rceil>"
    by (auto simp: py_ceil_def split: pyfloat.splits)
  from q z obtain d where d: "calc_duration dur = Fin d" and zq: "to_double (d / kb) = Fin z"
    by (cases "calc_duration dur") (auto simp: float_truediv_def split: if_splits)
  from d have dr: "d = spec_duration_ms dur"
    using to_double_Fin(1) by (simp add: calc_duration_def float_mul_def spec_duration_ms_def)
  from zq have zr: "z = round_double (d / kb)" by (rule to_double_Fin(1))
  from p have "ms = k * c" by (simp add: int_of_product_def)
  then show "ms = spec_ms_per_chunk (spec_duration_ms dur) (spec_file_size_kb size_bytes) c"
    by (simp add: spec_ms_per_chunk_def kz zr dr kbr)
  from n d have "calc_num_chunks (Fin d) ms = Inr n" by simp
  then have "n = \<lceil>round_double (d / round_double (real_of_int ms))\<rceil>"
    by (rule calc_num_chunks_Inr(3))
  then show "n = spec_num_chunks (spec_duration_ms dur) ms"
    by (simp add: spec_num_chunks_def dr)
qed

text \<open>
  Claim C1, as amended. Whenever \<open>split_file_by_size\<close> computes \<open>ms_per_chunk\<close> and
  \<open>num_chunks\<close> from an integer \<open>chunk_size\<close>, they are
  \<open>ms_per_chunk = ceil(duration_ms / file_size_kb) * chunk_size\<close>, the ceiling taken
  before the multiplication, and \<open>num_chunks = ceil(duration_ms / ms_per_chunk)\<close>, where
  \<open>duration_ms\<close> and \<open>file_size_kb\<close> are the floats of lines 25 and 24 and each
  division is a float division. For a decodable file of positive size below \<open>2 ^ 63\<close>
  bytes, a duration between \<open>2 ^ -64\<close> and \<open>2 ^ 64\<close> seconds and a \<open>chunk_size\<close>
  from 1 to \<open>2 ^ 512\<close> it does compute them, both are positive, and the export loop runs
  with them. For 10,000 ms, 1000 KB and \<open>chunk_size = 100\<close> they are 1000 and 10. For
  1,500 ms, 1000 KB and \<open>chunk_size = 2\<close> the ceiling before the multiplication gives
  \<open>ms_per_chunk = 4\<close>, where the ceiling of the product would be 3. For the double
  nearest to a tenth of a second, 1000 KB and \<open>chunk_size = 10\<close> they are 10 and 10:
  the duration in milliseconds is the float 100, not the exact product.
\<close>

theorem split_file_by_size_plan:
  assumes "from_file w infile = Inr audio"
    and "getsize w infile = Inr size_bytes"
  shows "(chunk_plan (python w) size_bytes (duration_seconds audio) (PInt chunk_size) =
            Inr (ms_per_chunk, num_chunks) \<longrightarrow>
          ms_per_chunk = spec_ms_per_chunk (spec_duration_ms (duration_seconds audio))
                           (spec_file_size_kb size_bytes) chunk_size
        \<and> num_chunks = spec_num_chunks (spec_duration_ms (duration_seconds audio)) ms_per_chunk
        \<and> split_file_by_size w infile directory (PInt chunk_size) =
            export_chunks w audio directory (int_of_float (time_time w))
              (fst (splitext (basename infile))) (lstrip_dot (snd (splitext (basename infile))))
              ms_per_chunk 0 (nat num_chunks) [])
       \<and> (0 < size_bytes \<and> size_bytes < 2 ^ 63
          \<and> 1 / 2 ^ 64 \<le> duration_seconds audio \<and> duration_seconds audio \<le> 2 ^ 64
          \<and> 0 < chunk_size \<and> chunk_size \<le> 2 ^ 512 \<longrightarrow>
          chunk_plan (python w) size_bytes (duration_seconds audio) (PInt chunk_size) =
            Inr (spec_ms_per_chunk (spec_duration_ms (duration_seconds audio))
                   (spec_file_size_kb size_bytes) chunk_size,
                 spec_num_chunks (spec_duration_ms (duration_seconds audio))
                   (spec_ms_per_chunk (spec_duration_ms (duration_seconds audio))
                      (spec_file_size_kb size_bytes) chunk_size))
        \<and> 0 < spec_ms_per_chunk (spec_duration_ms (duration_seconds audio))
                   (spec_file_size_kb size_bytes) chunk_size
        \<and> 0 < spec_num_chunks (spec_duration_ms (duration_seconds audio))
                   (spec_ms_per_chunk (spec_duration_ms (duration_seconds audio))
                      (spec_file_size_kb size_bytes) chunk_size))
       \<and> spec_duration_ms 10 = 10000
       \<and> spec_file_size_kb 1024000 = 1000
       \<and> spec_ms_per_chunk 10000 1000 100 = 1000
       \<and> spec_num_chunks 10000 1000 = 10
       \<and> chunk_plan (python w) 1024000 10 (PInt 100) = Inr (1000, 10)
       \<and> chunk_plan (python w) 1024000 (3 / 2) (PInt 2) = Inr (4, 375)
       \<and> \<lceil>(1500::real) / 1000 * 2\<rceil> = 3
       \<and> chunk_plan (python w) 1024000 (3602879701896397 / 36028797018963968) (PInt 10) =
           Inr (10, 10)"
proof -
  have partial: "ms_per_chunk = spec_ms_per_chunk (spec_duration_ms (duration_seconds audio))
                           (spec_file_size_kb size_bytes) chunk_size
        \<and> num_chunks = spec_num_chunks (spec_duration_ms (duration_seconds audio)) ms_per_chunk
        \<and> split_file_by_size w infile directory (PInt chunk_size) =
            export_chunks w audio directory (int_of_float (time_time w))
              (fst (splitext (basename infile))) (lstrip_dot (snd (splitext (basename infile))))
              ms_per_chunk 0 (nat num_chunks) []"
    if plan: "chunk_plan (python w) size_bytes (duration_seconds audio) (PInt chunk_size) =
            Inr (ms_per_chunk, num_chunks)"
  proof -
    note v = chunk_plan_Inr_int [OF plan]
    have "split_file_by_size w infile directory (PInt chunk_size) =
            export_chunks w audio directory (int_of_float (time_time w))
              (fst (splitext (basename infile))) (lstrip_dot (snd (splitext (basename infile))))
              ms_per_chunk 0 (nat num_chunks) []"
      by (simp add: split_file_by_size_def assms plan split_beta Let_def)
    with v show ?thesis by blast
  qed
  have total: "chunk_plan (python w) size_bytes (duration_seconds audio) (PInt chunk_size) =
            Inr (spec_ms_per_chunk (spec_duration_ms (duration_seconds audio))
                   (spec_file_size_kb size_bytes) chunk_size,
                 spec_num_chunks (spec_duration_ms (duration_seconds audio))
                   (spec_ms_per_chunk (spec_duration_ms (duration_seconds audio))
                      (spec_file_size_kb size_bytes) chunk_size))
        \<and> 0 < spec_ms_per_chunk (spec_duration_ms (duration_seconds audio))
                   (spec_file_size_kb size_bytes) chunk_size
        \<and> 0 < spec_num_chunks (spec_duration_ms (duration_seconds audio))
                   (spec_ms_per_chunk (spec_duration_ms (duration_seconds audio))
                      (spec_file_size_kb size_bytes) chunk_size)"
    if r: "0 < size_bytes \<and> size_bytes < 2 ^ 63
          \<and> 1 / 2 ^ 64 \<le> duration_seconds audio \<and> duration_seconds audio \<le> 2 ^ 64
          \<and> 0 < chunk_size \<and> chunk_size \<le> 2 ^ 512"
  proof -
    from r have h: "0 < size_bytes" "size_bytes < 2 ^ 63"
      "1 / 2 ^ 64 \<le> duration_seconds audio" "duration_seconds audio \<le> 2 ^ 64"
      "0 < chunk_size" "chunk_size \<le> 2 ^ 512"
      by blast+
    from chunk_plan_positive [OF h] show ?thesis by blast
  qed
  have e1: "spec_duration_ms 10 = 10000"
    by (simp add: spec_duration_ms_def round_double_numeral)
  have e2: "spec_file_size_kb 1024000 = 1000"
    by (simp add: spec_file_size_kb_def round_double_numeral)
  have e3: "spec_ms_per_chunk 10000 1000 100 = 1000"
    by (simp add: spec_ms_per_chunk_def round_double_numeral)
  have e4: "spec_num_chunks 10000 1000 = 10"
    by (simp add: spec_num_chunks_def round_double_numeral)
  have e5: "\<lceil>(1500::real) / 1000 * 2\<rceil> = 3" by simp
  from partial total e1 e2 e3 e4 e5 chunk_plan_example [of "python w"]
    chunk_plan_ceiling_first [of "python w"] chunk_plan_tenth [of "python w"]
  show ?thesis by blast
qed

theorem split_file_by_size_plan_witness:
  "split_file_by_size demo_world ''/in/song.mp3'' ''/tmp/'' (PInt 100) =
     export_chunks demo_world demo_audio ''/tmp/'' 1700000000 ''song'' ''mp3'' 1000 0 10 []
   \<and> chunk_plan (python demo_world) 1024000 (duration_seconds demo_audio) (PInt 100) =
       Inr (1000, 10)
   \<and> spec_ms_per_chunk (spec_duration_ms (duration_seconds demo_audio))
        (spec_file_size_kb 1024000) 100 = 1000
   \<and> spec_num_chunks (spec_duration_ms (duration_seconds demo_audio)) 1000 = 10"
proof -
  have h1: "from_file demo_world ''/in/song.mp3'' = Inr demo_audio"
    by (simp add: demo_world_def)
  have h2: "getsize demo_world ''/in/song.mp3'' = Inr 1024000"
    by (simp add: demo_world_def)
  have r: "0 < (1024000::nat) \<and> (1024000::nat) < 2 ^ 63
          \<and> 1 / 2 ^ 64 \<le> duration_seconds demo_audio \<and> duration_seconds demo_audio \<le> 2 ^ 64
          \<and> 0 < (100::int) \<and> (100::int) \<le> 2 ^ 512"
    by (simp add: demo_audio_def)
  have d: "spec_duration_ms (duration_seconds demo_audio) = 10000"
    by (simp add: spec_duration_ms_def demo_audio_def round_double_numeral)
  have kb: "spec_file_size_kb 1024000 = 1000"
    by (simp add: spec_file_size_kb_def round_double_numeral)
  have ms: "spec_ms_per_chunk 10000 1000 100 = 1000"
    by (simp add: spec_ms_per_chunk_def round_double_numeral)
  have n: "spec_num_chunks 10000 1000 = 10"
    by (simp add: spec_num_chunks_def round_double_numeral)
  have ext: "lstrip_dot ''.mp3'' = ''mp3''" by (simp add: lstrip_dot_def)
  have nat10: "nat (10::int) = 10" by simp
  note t = split_file_by_size_plan [OF h1 h2, of 100 1000 10 "''/tmp/''"]
  from t have total: "0 < (1024000::nat) \<and> (1024000::nat) < 2 ^ 63
          \<and> 1 / 2 ^ 64 \<le> duration_seconds demo_audio \<and> duration_seconds demo_audio \<le> 2 ^ 64
          \<and> 0 < (100::int) \<and> (100::int) \<le> 2 ^ 512 \<longrightarrow>
          chunk_plan (python demo_world) 1024000 (duration_seconds demo_audio) (PInt 100) =
            Inr (spec_ms_per_chunk (spec_duration_ms (duration_seconds demo_audio))
                   (spec_file_size_kb 1024000) 100,
                 spec_num_chunks (spec_duration_ms (duration_seconds demo_audio))
                   (spec_ms_per_chunk (spec_duration_ms (duration_seconds demo_audio))
                      (spec_file_size_kb 1024000) 100))
        \<and> 0 < spec_ms_per_chunk (spec_duration_ms (duration_seconds demo_audio))
                   (spec_file_size_kb 1024000) 100
        \<and> 0 < spec_num_chunks (spec_duration_ms (duration_seconds demo_audio))
                   (spec_ms_per_chunk (spec_duration_ms (duration_seconds demo_audio))
                      (spec_file_size_kb 1024000) 100)"
    by (rule conjunct2 [THEN conjunct1])
  from total r have plan: "chunk_plan (python demo_world) 1024000 (duration_seconds demo_audio) (PInt 100) =
       Inr (1000, 10)"
    by (simp only: d kb ms n simp_thms)
  from t have "chunk_plan (python demo_world) 1024000 (duration_seconds demo_audio) (PInt 100) =
            Inr (1000, 10) \<longrightarrow>
          1000 = spec_ms_per_chunk (spec_duration_ms (duration_seconds demo_audio))
                           (spec_file_size_kb 1024000) 100
        \<and> 10 = spec_num_chunks (spec_duration_ms (duration_seconds demo_audio)) 1000
        \<and> split_file_by_size demo_world ''/in/song.mp3'' ''/tmp/'' (PInt 100) =
            export_chunks demo_world demo_audio ''/tmp/'' (int_of_float (time_time demo_world))
              (fst (splitext (basename ''/in/song.mp3'')))
              (lstrip_dot (snd (splitext (basename ''/in/song.mp3''))))
              1000 0 (nat 10) []"
    by (rule conjunct1)
  with plan have "1000 = spec_ms_per_chunk (spec_duration_ms (duration_seconds demo_audio))
                           (spec_file_size_kb 1024000) 100
        \<and> 10 = spec_num_chunks (spec_duration_ms (duration_seconds demo_audio)) 1000
        \<and> split_file_by_size demo_world ''/in/song.mp3'' ''/tmp/'' (PInt 100) =
            export_chunks demo_world demo_audio ''/tmp/'' (int_of_float (time_time demo_world))
              (fst (splitext (basename ''/in/song.mp3'')))
              (lstrip_dot (snd (splitext (basename ''/in/song.mp3''))))
              1000 0 (nat 10) []"
    by (rule rev_mp)
  with plan show ?thesis
    by (simp only: demo_time demo_name fst_conv snd_conv ext nat10 simp_thms)
qed

text \<open>
  The claim as it was stated fails for a \<open>chunk_size\<close> that no float holds, where the
  division of line 27 raises \<open>OverflowError\<close>, and for a duration so small that the
  quotient of line 26 rounds to zero, where \<open>ms_per_chunk\<close> is 0 and line 27 raises
  \<open>ZeroDivisionError\<close>.
\<close>

theorem split_file_by_size_plan_counterexample:
  "split_file_by_size demo_world ''/in/song.mp3'' ''/tmp/'' (PInt (2 ^ 1024)) =
     (demo_world, Inl OverflowError)
   \<and> 0 < smallest_float
   \<and> split_file_by_size (world_of smallest_float 1073741824) ''/in/song.mp3'' ''/tmp/'' (PInt 100) =
     (world_of smallest_float 1073741824, Inl ZeroDivisionError)"
proof -
  have a: "from_file demo_world ''/in/song.mp3'' = Inr demo_audio"
    by (simp add: demo_world_def)
  have b: "getsize demo_world ''/in/song.mp3'' = Inr 1024000"
    by (simp add: demo_world_def)
  have d: "duration_seconds demo_audio = 10" by (simp add: demo_audio_def)
  have 1: "split_file_by_size demo_world ''/in/song.mp3'' ''/tmp/'' (PInt (2 ^ 1024)) =
     (demo_world, Inl OverflowError)"
    by (simp only: split_file_by_size_def a b d chunk_plan_overflow sum.case)
  have 2: "0 < smallest_float" by (simp add: smallest_float_def)
  have 3: "split_file_by_size (world_of smallest_float 1073741824) ''/in/song.mp3'' ''/tmp/'' (PInt 100) =
     (world_of smallest_float 1073741824, Inl ZeroDivisionError)"
    by (simp add: split_file_by_size_def world_of_fields chunk_plan_underflow_zero)
  from 1 2 3 show ?thesis by simp
qed

text \<open>
  Claim C4, as amended. A \<open>chunk_size\<close> that is zero or negative is not rejected before
  the division step: for a decodable file of positive size below \<open>2 ^ 63\<close> bytes and a
  duration between \<open>2 ^ -64\<close> and \<open>2 ^ 64\<close> seconds, \<open>ms_per_chunk\<close> is computed from
  a \<open>chunk_size\<close> from \<open>-(2 ^ 512)\<close> to 0 as
  \<open>ceil(duration / file_size_kb) * chunk_size\<close>. With \<open>chunk_size = 0\<close> the call then
  fails with the \<open>ZeroDivisionError\<close> of the division by \<open>ms_per_chunk\<close>; with a
  negative \<open>chunk_size\<close> it raises nothing and returns the empty list. In both cases no
  file is exported.
\<close>

theorem split_file_by_size_nonpositive_chunk_size:
  assumes "from_file w infile = Inr audio"
    and "getsize w infile = Inr size_bytes"
    and "0 < size_bytes" and "size_bytes < 2 ^ 63"
    and "1 / 2 ^ 64 \<le> duration_seconds audio" and "duration_seconds audio \<le> 2 ^ 64"
    and "chunk_size \<le> 0" and "- (2 ^ 512) \<le> chunk_size"
  shows "calc_file_size_kb size_bytes = Inr (spec_file_size_kb size_bytes)
       \<and> calc_duration (duration_seconds audio) = Fin (spec_duration_ms (duration_seconds audio))
       \<and> calc_ms_per_chunk (python w) (calc_duration (duration_seconds audio))
             (spec_file_size_kb size_bytes) (PInt chunk_size) =
           Inr (\<lceil>round_double (spec_duration_ms (duration_seconds audio)
                                 / spec_file_size_kb size_bytes)\<rceil> * chunk_size)
       \<and> 0 < \<lceil>round_double (spec_duration_ms (duration_seconds audio)
                                 / spec_file_size_kb size_bytes)\<rceil>
       \<and> split_file_by_size w infile directory (PInt chunk_size) =
           (w, if chunk_size = 0 then Inl ZeroDivisionError else Inr [])"
proof -
  note kb = file_size_kb_range [OF assms(3,4)]
  note d = duration_range [OF assms(5,6)]
  note p = chunk_plan_int [OF assms(3,4,5,6)]
  have ms: "calc_ms_per_chunk (python w) (calc_duration (duration_seconds audio))
             (spec_file_size_kb size_bytes) (PInt chunk_size) =
           Inr (\<lceil>round_double (spec_duration_ms (duration_seconds audio)
                                 / spec_file_size_kb size_bytes)\<rceil> * chunk_size)"
    using p(1) [of "python w" chunk_size] by (simp only: spec_ms_per_chunk_def)
  have q: "0 < \<lceil>round_double (spec_duration_ms (duration_seconds audio)
                                 / spec_file_size_kb size_bytes)\<rceil>"
    using p(2) by linarith
  have run: "split_file_by_size w infile directory (PInt chunk_size) =
           (w, if chunk_size = 0 then Inl ZeroDivisionError else Inr [])"
  proof (cases "chunk_size = 0")
    case True
    have "chunk_plan (python w) size_bytes (duration_seconds audio) (PInt chunk_size) =
            Inl ZeroDivisionError"
      unfolding True using assms(3,4,5,6) by (rule chunk_plan_zero)
    then show ?thesis using True by (simp add: split_file_by_size_def assms(1,2))
  next
    case False
    with assms(7) have neg: "chunk_size < 0" by simp
    from chunk_plan_negative_range [OF assms(3,4,5,6) neg assms(8), of "python w"]
    obtain ms n where
      plan: "chunk_plan (python w) size_bytes (duration_seconds audio) (PInt chunk_size) = Inr (ms, n)"
      and n: "n \<le> 0"
      by blast
    from n have "nat n = 0" by simp
    then show ?thesis
      using False by (simp add: split_file_by_size_def assms(1,2) plan split_beta)
  qed
  from kb(1) d(1) ms q run show ?thesis by simp
qed

theorem split_file_by_size_nonpositive_chunk_size_witness:
  "split_file_by_size demo_world ''/in/song.mp3'' ''/tmp/'' (PInt 0) =
     (demo_world, Inl ZeroDivisionError)"
proof -
  have a: "from_file demo_world ''/in/song.mp3'' = Inr demo_audio"
    by (simp add: demo_world_def)
  have b: "getsize demo_world ''/in/song.mp3'' = Inr 1024000"
    by (simp add: demo_world_def)
  have c: "0 < (1024000::nat)" "(1024000::nat) < 2 ^ 63" by simp_all
  have d: "1 / 2 ^ 64 \<le> duration_seconds demo_audio" "duration_seconds demo_audio \<le> 2 ^ 64"
    by (simp_all add: demo_audio_def)
  have e: "(0::int) \<le> 0" "- (2 ^ 512) \<le> (0::int)" by simp_all
  from split_file_by_size_nonpositive_chunk_size [OF a b c d e, of "''/tmp/''"]
  show ?thesis by simp
qed

theorem split_file_by_size_negative_chunk_size_counterexample:
  "split_file_by_size demo_world ''/in/song.mp3'' ''/tmp/'' (PInt (- 1)) = (demo_world, Inr [])
   \<and> chunk_plan (python demo_world) 1024000 (duration_seconds demo_audio) (PInt (- 1)) =
       Inr (- 10, - 1000)"
proof -
  have a: "from_file demo_world ''/in/song.mp3'' = Inr demo_audio"
    by (simp add: demo_world_def)
  have b: "getsize demo_world ''/in/song.mp3'' = Inr 1024000"
    by (simp add: demo_world_def)
  have p: "chunk_plan (python demo_world) 1024000 (duration_seconds demo_audio) (PInt (- 1)) =
             Inr (- 10, - 1000)"
    by (simp add: demo_audio_def chunk_plan_negative)
  show ?thesis
    by (simp add: split_file_by_size_def a b p split_beta)
qed

lemma calc_file_size_kb_zero: "calc_file_size_kb 0 = Inr 0"
  by (simp add: calc_file_size_kb_def int_truediv_def to_double_0)

lemma calc_file_size_kb_nonzero:
  assumes "0 < size_bytes" and "calc_file_size_kb size_bytes = Inr kb"
  shows "kb \<noteq> 0"
proof -
  let ?x = "real size_bytes / 1024"
  have "1 \<le> real size_bytes" using assms(1) by simp
  then have "1 / 2 ^ 10 \<le> ?x" by simp
  then have lo: "2 powr real_of_int (- 10) \<le> ?x" using pow2_neg [of 10] by simp
  have a: "- 1022 \<le> (- 10::int)" by simp
  from a lo have r: "2 powr real_of_int (- 10) \<le> round_double ?x" by (rule round_double_ge)
  have "0 < (2::real) powr real_of_int (- 10)" by simp
  with r have pos: "0 < round_double ?x" by linarith
  from assms(2) have "kb = round_double ?x"
    by (simp add: calc_file_size_kb_def int_truediv_def to_double_def Let_def
        split: if_splits)
  with pos show ?thesis by simp
qed

lemma calc_ms_per_chunk_zero_duration:
  assumes "kb \<noteq> 0"
  shows "calc_ms_per_chunk py (Fin 0) kb chunk_size =
           (case chunk_size of PStr s \<Rightarrow> Inl ValueError | PNone \<Rightarrow> Inl TypeError | _ \<Rightarrow> Inr 0)"
  using assms
  by (cases chunk_size)
     (simp_all add: calc_ms_per_chunk_def float_truediv_def to_double_0 py_ceil_def
        int_of_product_def str_repeat_def int_of_str_def strip_def float_of_int_def float_mul_def
        int_of_float_def)

text \<open>
  Claim C5. When the input file decodes and its size is zero bytes or its duration is zero,
  \<open>split_file_by_size\<close> fails with an error and exports no file, whatever
  \<open>chunk_size\<close> is: the error is the \<open>ZeroDivisionError\<close> of one of the two
  divisions, and for a file of zero duration and positive size a \<open>chunk_size\<close> that is
  a string or \<open>None\<close> fails earlier, in the conversion of line 26, and a size that no
  float holds fails in line 24.
\<close>

theorem split_file_by_size_zero_input:
  assumes "from_file w infile = Inr audio"
    and "getsize w infile = Inr size_bytes"
    and "size_bytes = 0 \<or> duration_seconds audio = 0"
  shows "split_file_by_size w infile directory chunk_size =
           (w, Inl (if size_bytes = 0 then ZeroDivisionError
                    else case calc_file_size_kb size_bytes of
                           Inl e \<Rightarrow> e
                         | Inr file_size_kb \<Rightarrow>
                             (case chunk_size of
                                PStr s \<Rightarrow> ValueError
                              | PNone \<Rightarrow> TypeError
                              | _ \<Rightarrow> ZeroDivisionError)))"
proof (cases "size_bytes = 0")
  case True
  then have "chunk_plan (python w) size_bytes (duration_seconds audio) chunk_size =
               Inl ZeroDivisionError"
    by (simp add: chunk_plan_def calc_file_size_kb_zero calc_ms_per_chunk_def float_truediv_def)
  with True show ?thesis
    by (simp add: split_file_by_size_def assms(1,2))
next
  case False
  with assms(3) have d: "duration_seconds audio = 0" by simp
  have dur: "calc_duration (duration_seconds audio) = Fin 0"
    by (simp add: d calc_duration_def float_mul_def to_double_0)
  show ?thesis
  proof (cases "calc_file_size_kb size_bytes")
    case (Inl e)
    then have "chunk_plan (python w) size_bytes (duration_seconds audio) chunk_size = Inl e"
      by (simp add: chunk_plan_def)
    with False Inl show ?thesis by (simp add: split_file_by_size_def assms(1,2))
  next
    case (Inr kb)
    from False have "0 < size_bytes" by simp
    then have kb: "kb \<noteq> 0" using Inr by (rule calc_file_size_kb_nonzero)
    have "chunk_plan (python w) size_bytes (duration_seconds audio) chunk_size =
            Inl (case chunk_size of PStr s \<Rightarrow> ValueError | PNone \<Rightarrow> TypeError
                 | _ \<Rightarrow> ZeroDivisionError)"
      by (cases chunk_size)
         (simp_all add: chunk_plan_def Inr dur calc_ms_per_chunk_zero_duration [OF kb]
            calc_num_chunks_zero)
    with False Inr show ?thesis by (simp add: split_file_by_size_def assms(1,2))
  qed
qed

theorem split_file_by_size_zero_input_witness:
  "split_file_by_size silent_world ''/in/song.mp3'' ''/tmp/'' (PInt 100) =
     (silent_world, Inl ZeroDivisionError)"
proof -
  have a: "from_file silent_world ''/in/song.mp3'' = Inr (demo_audio\<lparr>duration_seconds := 0\<rparr>)"
    by (simp add: silent_world_def)
  have b: "getsize silent_world ''/in/song.mp3'' = Inr 1024000"
    by (simp add: silent_world_def demo_world_def)
  have c: "(1024000::nat) = 0 \<or> duration_seconds (demo_audio\<lparr>duration_seconds := 0\<rparr>) = 0"
    by simp
  have kb: "calc_file_size_kb 1024000 = Inr 1000" by (simp add: float_eval)
  from split_file_by_size_zero_input [OF a b c, of "''/tmp/''" "PInt 100"]
  show ?thesis by (simp add: kb)
qed



lemma split_file_by_size_Inr:
  assumes "split_file_by_size w infile directory chunk_size = (w', Inr chunks)"
  obtains audio size_bytes ms_per_chunk num_chunks where
    "from_file w infile = Inr audio"
    "getsize w infile = Inr size_bytes"
    "chunk_plan (python w) size_bytes (duration_seconds audio) chunk_size =
       Inr (ms_per_chunk, num_chunks)"
    "export_chunks w audio directory (int_of_float (time_time w))
       (fst (splitext (basename infile))) (lstrip_dot (snd (splitext (basename infile))))
       ms_per_chunk 0 (nat num_chunks) [] = (w', Inr chunks)"
  using assms
  by (auto simp: split_file_by_size_def Let_def split_beta split: sum.splits)

text \<open>A run on the sample world, with \<open>chunk_size = 300\<close>: four chunks of 3000 ms.\<close>

lemma demo_split:
  "split_file_by_size demo_world ''/in/song.mp3'' ''/tmp/'' (PInt 300) =
     (demo_world\<lparr>written :=
        map (chunk_export demo_audio ''/tmp/'' 1700000000 ''song'' ''mp3'' 3000) [0, 1, 2, 3]\<rparr>,
      Inr [''/tmp/1700000000_song_chunk_1.mp3'', ''/tmp/1700000000_song_chunk_2.mp3'',
           ''/tmp/1700000000_song_chunk_3.mp3'', ''/tmp/1700000000_song_chunk_4.mp3''])"
proof -
  have ok: "\<And>p. export_error demo_world p ''mp3'' = None"
    by (simp add: demo_world_def)
  have w: "written demo_world = []" by (simp add: demo_world_def)
  have a: "from_file demo_world ''/in/song.mp3'' = Inr demo_audio"
    by (simp add: demo_world_def)
  have b: "getsize demo_world ''/in/song.mp3'' = Inr 1024000"
    by (simp add: demo_world_def)
  have d: "duration_seconds demo_audio = 10" by (simp add: demo_audio_def)
  have ts: "str_of_int 1700000000 = ''1700000000''"
    by (simp add: str_of_int_def nat_digits.simps)
  have idx: "str_of_int 1 = ''1''" "str_of_int 2 = ''2''" "str_of_int 3 = ''3''" "str_of_int 4 = ''4''"
    by (simp_all add: str_of_int_def nat_digits.simps)
  have "split_file_by_size demo_world ''/in/song.mp3'' ''/tmp/'' (PInt 300) =
          export_chunks demo_world demo_audio ''/tmp/'' 1700000000 ''song'' ''mp3'' 3000 0 4 []"
    by (simp add: split_file_by_size_def a b d demo_plan demo_name demo_time lstrip_dot_def)
  also have "\<dots> = (demo_world\<lparr>written :=
        map (chunk_export demo_audio ''/tmp/'' 1700000000 ''song'' ''mp3'' 3000) [0, 1, 2, 3]\<rparr>,
      Inr [''/tmp/1700000000_song_chunk_1.mp3'', ''/tmp/1700000000_song_chunk_2.mp3'',
           ''/tmp/1700000000_song_chunk_3.mp3'', ''/tmp/1700000000_song_chunk_4.mp3''])"
    by (simp add: export_chunks_no_error [OF ok] w upt_0_4 chunk_path_def ts idx)
  finally show ?thesis .
qed









lemma digit_char:
  assumes "k < 10"
  shows "is_digit (''0123456789'' ! k)" and "digit_val (''0123456789'' ! k) = k"
    and "(''0123456789'' ! k = CHR ''0'') = (k = 0)"
proof -
  from assms have "k = 0 \<or> k = 1 \<or> k = 2 \<or> k = 3 \<or> k = 4 \<or> k = 5 \<or> k = 6 \<or> k = 7 \<or> k = 8 \<or> k = 9"
    by arith
  then show "is_digit (''0123456789'' ! k)" and "digit_val (''0123456789'' ! k) = k"
    and "(''0123456789'' ! k = CHR ''0'') = (k = 0)"
    by (auto simp: is_digit_def digit_val_def)
qed

lemma nat_digits_nonempty: "nat_digits n \<noteq> []"
  by (subst nat_digits.simps) simp

lemma nat_digits_all_digits: "list_all is_digit (nat_digits n)"
proof (induction n rule: nat_digits.induct)
  case (1 n)
  show ?case
  proof (cases "n < 10")
    case True
    then show ?thesis by (subst nat_digits.simps) (simp add: digit_char(1))
  next
    case False
    have "n mod 10 < 10" by simp
    then have "is_digit (''0123456789'' ! (n mod 10))" by (rule digit_char(1))
    with False 1 show ?thesis by (subst nat_digits.simps) simp
  qed
qed

lemma digits_number_snoc: "digits_number (s @ [c]) = 10 * digits_number s + digit_val c"
  by (simp add: digits_number_def)

lemma nat_digits_value: "digits_number (nat_digits n) = n"
proof (induction n rule: nat_digits.induct)
  case (1 n)
  show ?case
  proof (cases "n < 10")
    case True
    then show ?thesis
      by (subst nat_digits.simps) (simp add: digits_number_def digit_char(2))
  next
    case False
    have "n mod 10 < 10" by simp
    then have d: "digit_val (''0123456789'' ! (n mod 10)) = n mod 10" by (rule digit_char(2))
    from False 1 have ih: "digits_number (nat_digits (n div 10)) = n div 10" by simp
    have "nat_digits n = nat_digits (n div 10) @ [''0123456789'' ! (n mod 10)]"
      using False by (subst nat_digits.simps) simp
    then have "digits_number (nat_digits n) = 10 * (n div 10) + n mod 10"
      by (simp only: digits_number_snoc ih d)
    then show ?thesis by simp
  qed
qed

lemma nat_digits_leading:
  "(hd (nat_digits n) = CHR ''0'') = (n = 0)"
proof (induction n rule: nat_digits.induct)
  case (1 n)
  show ?case
  proof (cases "n < 10")
    case True
    then show ?thesis by (subst nat_digits.simps) (simp add: digit_char(3))
  next
    case False
    from False 1 have ih: "(hd (nat_digits (n div 10)) = CHR ''0'') = (n div 10 = 0)" by simp
    have "nat_digits n = nat_digits (n div 10) @ [''0123456789'' ! (n mod 10)]"
      using False by (subst nat_digits.simps) simp
    then have "hd (nat_digits n) = hd (nat_digits (n div 10))"
      by (simp add: nat_digits_nonempty)
    with ih False show ?thesis by simp
  qed
qed

lemma nat_digits_zero: "nat_digits 0 = ''0''"
  by (simp add: nat_digits.simps)

lemma str_of_int_decimal:
  "str_of_int n = (if n < 0 then ''-'' else []) @ str_of_int \<bar>n\<bar>"
  "list_all is_digit (str_of_int \<bar>n\<bar>)"
  "int (digits_number (str_of_int \<bar>n\<bar>)) = \<bar>n\<bar>"
  "str_of_int \<bar>n\<bar> \<noteq> []"
  "(hd (str_of_int \<bar>n\<bar>) = CHR ''0'') = (n = 0)"
proof -
  have abs: "str_of_int \<bar>n\<bar> = nat_digits (nat \<bar>n\<bar>)" by (simp add: str_of_int_def)
  show "str_of_int n = (if n < 0 then ''-'' else []) @ str_of_int \<bar>n\<bar>"
    by (simp add: str_of_int_def)
  show "list_all is_digit (str_of_int \<bar>n\<bar>)" by (simp only: abs nat_digits_all_digits)
  show "int (digits_number (str_of_int \<bar>n\<bar>)) = \<bar>n\<bar>" by (simp add: abs nat_digits_value)
  show "str_of_int \<bar>n\<bar> \<noteq> []" by (simp only: abs nat_digits_nonempty not_False_eq_True)
  show "(hd (str_of_int \<bar>n\<bar>) = CHR ''0'') = (n = 0)" by (simp add: abs nat_digits_leading)
qed

lemma str_of_int_zero: "str_of_int 0 = ''0''"
  by (simp add: str_of_int_def nat_digits_zero)

text \<open>
  Claim C10. When \<open>split_file_by_size\<close> completes, the list it returns is ordered by
  chunk index, its element at position \<open>i\<close> (from 0) is
  \<open>{directory}{timestamp}_{filename}_chunk_{i+1}.{extension}\<close> with one timestamp for
  the whole call, the clock reading truncated to whole seconds, the indices run from 1
  to \<open>num_chunks\<close> without a gap, the files exported are the paths returned, and each is
  exported in the format named by the extension of the input file. The timestamp and the
  index stand in the path as \<open>str\<close> writes an integer \<open>n\<close>: a minus sign when \<open>n\<close> is
  negative, then the decimal digits of its magnitude, at least one, with no leading zero
  unless \<open>n\<close> is 0, which is written \<open>0\<close>.
\<close>

theorem split_file_by_size_paths:
  assumes "split_file_by_size w infile directory chunk_size = (w', Inr chunks)"
  shows "chunks =
           map (\<lambda>i. directory @ str_of_int (int_of_float (time_time w)) @ ''_''
                      @ fst (splitext (basename infile)) @ ''_chunk_'' @ str_of_int (int i + 1)
                      @ ''.'' @ lstrip_dot (snd (splitext (basename infile))))
               [0..<length chunks]
       \<and> str_of_int n = (if n < 0 then ''-'' else []) @ str_of_int \<bar>n\<bar>
       \<and> list_all is_digit (str_of_int \<bar>n\<bar>)
       \<and> int (digits_number (str_of_int \<bar>n\<bar>)) = \<bar>n\<bar>
       \<and> str_of_int \<bar>n\<bar> \<noteq> []
       \<and> (hd (str_of_int \<bar>n\<bar>) = CHR ''0'') = (n = 0)
       \<and> str_of_int 0 = ''0''
       \<and> map export_path (drop (length (written w)) (written w')) = chunks
       \<and> map export_format (drop (length (written w)) (written w')) =
           replicate (length chunks) (lstrip_dot (snd (splitext (basename infile))))
       \<and> (\<exists>audio size_bytes ms_per_chunk num_chunks.
             from_file w infile = Inr audio \<and> getsize w infile = Inr size_bytes
           \<and> chunk_plan (python w) size_bytes (duration_seconds audio) chunk_size =
               Inr (ms_per_chunk, num_chunks)
           \<and> length chunks = nat num_chunks)"
proof -
  from assms obtain audio size_bytes ms k where
    a: "from_file w infile = Inr audio" and
    b: "getsize w infile = Inr size_bytes" and
    p: "chunk_plan (python w) size_bytes (duration_seconds audio) chunk_size = Inr (ms, k)" and
    e: "export_chunks w audio directory (int_of_float (time_time w))
       (fst (splitext (basename infile))) (lstrip_dot (snd (splitext (basename infile))))
       ms 0 (nat k) [] = (w', Inr chunks)"
    by (rule split_file_by_size_Inr)
  note loop = export_chunks_Inr [OF e]
  have len: "length chunks = nat k" using loop by simp
  have paths: "chunks =
           map (\<lambda>i. directory @ str_of_int (int_of_float (time_time w)) @ ''_''
                      @ fst (splitext (basename infile)) @ ''_chunk_'' @ str_of_int (int i + 1)
                      @ ''.'' @ lstrip_dot (snd (splitext (basename infile))))
               [0..<length chunks]"
    unfolding len using loop by (simp add: chunk_path_def)
  have exported: "map export_path (drop (length (written w)) (written w')) = chunks"
    using loop by (simp add: chunk_export_def comp_def)
  have formats: "map export_format (drop (length (written w)) (written w')) =
           replicate (length chunks) (lstrip_dot (snd (splitext (basename infile))))"
    unfolding len using loop by (simp add: chunk_export_def comp_def map_replicate_const)
  from a b p len have plan: "\<exists>audio size_bytes ms_per_chunk num_chunks.
             from_file w infile = Inr audio \<and> getsize w infile = Inr size_bytes
           \<and> chunk_plan (python w) size_bytes (duration_seconds audio) chunk_size =
               Inr (ms_per_chunk, num_chunks)
           \<and> length chunks = nat num_chunks"
    by blast
  from paths str_of_int_decimal [of n] str_of_int_zero exported formats plan show ?thesis
    by (simp only: simp_thms)
qed

theorem split_file_by_size_paths_witness:
  "snd (split_file_by_size demo_world ''/in/song.mp3'' ''/tmp/'' (PInt 300)) =
     Inr [''/tmp/1700000000_song_chunk_1.mp3'', ''/tmp/1700000000_song_chunk_2.mp3'',
          ''/tmp/1700000000_song_chunk_3.mp3'', ''/tmp/1700000000_song_chunk_4.mp3'']
   \<and> [''/tmp/1700000000_song_chunk_1.mp3'', ''/tmp/1700000000_song_chunk_2.mp3'',
       ''/tmp/1700000000_song_chunk_3.mp3'', ''/tmp/1700000000_song_chunk_4.mp3''] =
       map (\<lambda>i. ''/tmp/'' @ str_of_int 1700000000 @ ''_'' @ ''song'' @ ''_chunk_''
                  @ str_of_int (int i + 1) @ ''.'' @ ''mp3'') [0..<4]
   \<and> map export_path
        (written (fst (split_file_by_size demo_world ''/in/song.mp3'' ''/tmp/'' (PInt 300)))) =
       [''/tmp/1700000000_song_chunk_1.mp3'', ''/tmp/1700000000_song_chunk_2.mp3'',
        ''/tmp/1700000000_song_chunk_3.mp3'', ''/tmp/1700000000_song_chunk_4.mp3'']
   \<and> map export_format
        (written (fst (split_file_by_size demo_world ''/in/song.mp3'' ''/tmp/'' (PInt 300)))) =
       [''mp3'', ''mp3'', ''mp3'', ''mp3'']
   \<and> str_of_int 1700000000 = ''1700000000''
   \<and> str_of_int (- 12) = ''-12''"
proof -
  have w: "written demo_world = []" by (simp add: demo_world_def)
  have ext: "lstrip_dot ''.mp3'' = ''mp3''" by (simp add: lstrip_dot_def)
  have len: "length [''/tmp/1700000000_song_chunk_1.mp3'', ''/tmp/1700000000_song_chunk_2.mp3'',
           ''/tmp/1700000000_song_chunk_3.mp3'', ''/tmp/1700000000_song_chunk_4.mp3''] = 4"
    by simp
  have rep: "replicate 4 ''mp3'' = [''mp3'', ''mp3'', ''mp3'', ''mp3'']"
    by (simp add: eval_nat_numeral)
  note c = split_file_by_size_paths [OF demo_split, of 0,
      unfolded len w demo_name demo_time fst_conv snd_conv ext rep]
  from c have 1: "[''/tmp/1700000000_song_chunk_1.mp3'', ''/tmp/1700000000_song_chunk_2.mp3'',
           ''/tmp/1700000000_song_chunk_3.mp3'', ''/tmp/1700000000_song_chunk_4.mp3''] =
       map (\<lambda>i. ''/tmp/'' @ str_of_int 1700000000 @ ''_'' @ ''song'' @ ''_chunk_''
                      @ str_of_int (int i + 1) @ ''.'' @ ''mp3'') [0..<4]"
    by (rule conjunct1)
  from c have 2: "map export_path (drop (length ([]::export list))
       (written (demo_world\<lparr>written :=
        map (chunk_export demo_audio ''/tmp/'' 1700000000 ''song'' ''mp3'' 3000) [0, 1, 2, 3]\<rparr>))) =
       [''/tmp/1700000000_song_chunk_1.mp3'', ''/tmp/1700000000_song_chunk_2.mp3'',
        ''/tmp/1700000000_song_chunk_3.mp3'', ''/tmp/1700000000_song_chunk_4.mp3'']"
    by (rule conjunct2 [THEN conjunct2, THEN conjunct2, THEN conjunct2, THEN conjunct2,
          THEN conjunct2, THEN conjunct2, THEN conjunct1])
  from c have 3: "map export_format (drop (length ([]::export list))
       (written (demo_world\<lparr>written :=
        map (chunk_export demo_audio ''/tmp/'' 1700000000 ''song'' ''mp3'' 3000) [0, 1, 2, 3]\<rparr>))) =
       [''mp3'', ''mp3'', ''mp3'', ''mp3'']"
    by (rule conjunct2 [THEN conjunct2, THEN conjunct2, THEN conjunct2, THEN conjunct2,
          THEN conjunct2, THEN conjunct2, THEN conjunct2, THEN conjunct1])
  have 4: "str_of_int 1700000000 = ''1700000000''" "str_of_int (- 12) = ''-12''"
    by (simp_all add: str_of_int_def nat_digits.simps)
  from 1 2 3 4 show ?thesis
    by (simp only: demo_split fst_conv snd_conv list.size drop_0 simp_thms)
qed

section \<open>Properties of the detail extractor\<close>

text \<open>
  For a file of less than \<open>2 ^ 53\<close> bytes the float division by 1024 is exact: the size
  in KB that the chunk splitter computes is the quotient that the detail extractor
  reports.
\<close>

lemma calc_file_size_kb_exact:
  assumes "size_bytes < 2 ^ 53"
  shows "calc_file_size_kb size_bytes = Inr (real size_bytes / 1024)"
proof -
  have "int size_bytes < int (2 ^ 53)" using assms by (simp only: of_nat_less_iff)
  then have k: "\<bar>int size_bytes\<bar> < 2 ^ 53" by simp
  have n: "(10::nat) \<le> 1074" by simp
  have "to_double (real_of_int (int size_bytes) / 2 ^ 10) = Fin (real_of_int (int size_bytes) / 2 ^ 10)"
    using k n by (rule to_double_dyadic)
  then show ?thesis by (simp add: calc_file_size_kb_def int_truediv_def)
qed




section \<open>Properties of the error-rate calculator\<close>

text \<open>
  Claim C7. If the reference or the hypothesis is the empty string, \<open>compute_wer\<close>
  returns exactly 100 and makes no call to the word-alignment collaborator, whatever the
  collaborator is.
\<close>

theorem compute_wer_empty:
  assumes "reference = [] \<or> hypothesis = []"
  shows "compute_wer wer reference hypothesis = ([], Inr (PInt 100))"
  using assms by (auto simp: compute_wer_def)

theorem compute_wer_empty_witness:
  "compute_wer (\<lambda>r h. Inl ValueError) ''the cat sat'' '''' = ([], Inr (PInt 100))
   \<and> compute_wer (\<lambda>r h. Inl ValueError) '''' ''the cat sat'' = ([], Inr (PInt 100))"
proof -
  have 1: "''the cat sat'' = [] \<or> '''' = ([]::string)" by simp
  have 2: "'''' = ([]::string) \<or> ''the cat sat'' = []" by simp
  from compute_wer_empty [OF 1] compute_wer_empty [OF 2] show ?thesis by (rule conjI)
qed

lemma edit_distance_same: "edit_distance xs xs = 0"
  by (induction xs) simp_all

lemma words_of_nonempty: "words_of s \<noteq> [] \<Longrightarrow> s \<noteq> []"
  by (auto simp: words_of_def)

lemma spec_wer_nonneg: "spec_wer reference hypothesis = Inr rate \<Longrightarrow> 0 \<le> rate"
  by (auto simp: spec_wer_def Let_def split: if_splits)

text \<open>
  Claim C8. With the collaborator as the specification describes it,
  \<open>compute_wer(x, x)\<close> is 0 for every string \<open>x\<close> with at least one word, and a
  result of \<open>compute_wer\<close> is never negative: it is the integer 100 or a float that is
  at least 0.
\<close>

theorem compute_wer_same_and_nonneg:
  assumes "words_of x \<noteq> []"
    and "snd (compute_wer spec_wer reference hypothesis) = Inr v"
  shows "snd (compute_wer spec_wer x x) = Inr (PFloat 0)
       \<and> (v = PInt 100 \<or> (\<exists>rate. v = PFloat rate \<and> 0 \<le> rate))"
proof -
  from assms(1) have "x \<noteq> []" by (rule words_of_nonempty)
  moreover have "spec_wer x x = Inr 0"
    using assms(1) by (simp add: spec_wer_def Let_def edit_distance_same)
  ultimately have same: "snd (compute_wer spec_wer x x) = Inr (PFloat 0)"
    by (simp add: compute_wer_def)
  have "v = PInt 100 \<or> (\<exists>rate. v = PFloat rate \<and> 0 \<le> rate)"
  proof (cases "reference = [] \<or> hypothesis = []")
    case True
    with assms(2) show ?thesis by (auto simp: compute_wer_def)
  next
    case False
    with assms(2) obtain rate where r: "spec_wer reference hypothesis = Inr rate" and v: "v = PFloat (rate * 100)"
      by (auto simp: compute_wer_def split: sum.splits)
    from r have "0 \<le> rate" by (rule spec_wer_nonneg)
    with v show ?thesis by simp
  qed
  with same show ?thesis by simp
qed

lemma demo_words: "words_of ''the cat sat'' = [''the'', ''cat'', ''sat'']"
  by (simp add: words_of_def is_space_def)

lemma demo_words2: "words_of ''a dog ran'' = [''a'', ''dog'', ''ran'']"
  by (simp add: words_of_def is_space_def)

lemma demo_wer: "snd (compute_wer spec_wer ''the cat sat'' ''a dog ran'') = Inr (PFloat 100)"
  by (simp add: compute_wer_def spec_wer_def demo_words demo_words2)

theorem compute_wer_same_and_nonneg_witness:
  "snd (compute_wer spec_wer ''the cat sat'' ''the cat sat'') = Inr (PFloat 0)
   \<and> (PFloat 100 = PInt 100 \<or> (\<exists>rate. PFloat 100 = PFloat rate \<and> 0 \<le> rate))"
proof -
  have 1: "words_of ''the cat sat'' \<noteq> []" by (simp add: demo_words)
  from compute_wer_same_and_nonneg [OF 1 demo_wer] show ?thesis .
qed

section \<open>The splitter on the command line\<close>

lemma foldl_digits_shift:
  "foldl (\<lambda>acc c. 10 * acc + digit_val c) acc t =
     acc * 10 ^ length t + foldl (\<lambda>acc c. 10 * acc + digit_val c) 0 t"
proof (induction t arbitrary: acc)
  case Nil
  then show ?case by simp
next
  case (Cons c t)
  have "foldl (\<lambda>acc c. 10 * acc + digit_val c) acc (c # t) =
          foldl (\<lambda>acc c. 10 * acc + digit_val c) (10 * acc + digit_val c) t" by simp
  also have "\<dots> = (10 * acc + digit_val c) * 10 ^ length t + foldl (\<lambda>acc c. 10 * acc + digit_val c) 0 t"
    by (rule Cons.IH)
  also have "foldl (\<lambda>acc c. 10 * acc + digit_val c) 0 (c # t) =
               digit_val c * 10 ^ length t + foldl (\<lambda>acc c. 10 * acc + digit_val c) 0 t"
    using Cons.IH [of "digit_val c"] by simp
  ultimately show ?case by (simp add: algebra_simps)
qed

lemma digits_number_append:
  "digits_number (s @ t) = digits_number s * 10 ^ length t + digits_number t"
  unfolding digits_number_def foldl_append by (rule foldl_digits_shift)

lemma digits_number_repeat_ge:
  "n * digits_number s \<le> digits_number (concat (replicate n s))"
proof (induction n)
  case 0
  then show ?case by simp
next
  case (Suc n)
  have a: "digits_number s \<le> digits_number s * 10 ^ length (concat (replicate n s))"
    by simp
  have "Suc n * digits_number s = digits_number s + n * digits_number s" by simp
  also have "\<dots> \<le> digits_number s * 10 ^ length (concat (replicate n s))
                  + digits_number (concat (replicate n s))"
    using a Suc by (rule add_mono)
  also have "\<dots> = digits_number (concat (replicate (Suc n) s))"
    by (simp add: digits_number_append)
  finally show ?case .
qed

lemma digits_number_repeat_gt:
  assumes "s \<noteq> []" and "0 < digits_number s" and "2 \<le> n"
  shows "n * digits_number s < digits_number (concat (replicate n s))"
proof -
  from assms(3) obtain m where n: "n = Suc (Suc m)"
    by (metis Suc_le_D numeral_2_eq_2 Suc_le_mono)
  let ?t = "concat (replicate (Suc m) s)"
  define v where "v = digits_number s"
  define A where "A = Suc m * digits_number s"
  define P where "P = digits_number s * 10 ^ length ?t"
  define R where "R = digits_number ?t"
  have "0 < length s" using assms(1) by simp
  moreover have "length ?t = length s + length (concat (replicate m s))" by simp
  ultimately have "1 \<le> length ?t" by linarith
  then have "(10::nat) ^ 1 \<le> 10 ^ length ?t" by (rule power_increasing) simp
  then have "(10::nat) \<le> 10 ^ length ?t" by (simp only: power_one_right)
  then have a: "v * 10 \<le> P" unfolding v_def P_def by (rule mult_le_mono2)
  have b: "A \<le> R" unfolding A_def R_def by (rule digits_number_repeat_ge)
  have c: "digits_number (concat (replicate n s)) = P + R"
    unfolding n P_def R_def by (simp add: digits_number_append)
  have d: "n * digits_number s = v + A" unfolding n v_def A_def by simp
  have e: "0 < v" unfolding v_def by (rule assms(2))
  from a b e have "v + A < P + R" by linarith
  then show ?thesis by (simp only: c d)
qed

lemma repeat_all_digits:
  "list_all is_digit s \<Longrightarrow> list_all is_digit (concat (replicate n s))"
  by (induction n) simp_all

text \<open>
  Claim C3, as amended. The command line hands \<open>--chunk_size\<close> to
  \<open>split_file_by_size\<close> as a string, unconverted. For a \<open>chunk_size\<close> made of decimal
  digits and a float quotient \<open>duration / file_size_kb\<close> that is finite and positive,
  line 26 then repeats the string \<open>ceil(duration / file_size_kb)\<close> times, and, when the
  repeated string fits the memory and has no more digits than the interpreter converts
  (4300 by default, any number when the limit is 0 or the string has at most 640 digits),
  \<open>ms_per_chunk\<close> is the integer that the repeated digits denote. It differs from the
  product \<open>ceil(duration / file_size_kb) * chunk_size\<close> whenever the repetition count
  is not 1 and \<open>chunk_size\<close> does not denote zero.
\<close>

theorem calc_ms_per_chunk_str:
  assumes "s \<noteq> []"
    and "list_all is_digit s"
    and "float_truediv duration file_size_kb = Inr (Fin q)"
    and "0 < q"
    and "nat \<lceil>q\<rceil> * length s \<le> max_str_length py"
    and "max_str_length py < 2 ^ 63"
    and "int_max_str_digits py = 0 \<or> nat \<lceil>q\<rceil> * length s \<le> 640
           \<or> nat \<lceil>q\<rceil> * length s \<le> int_max_str_digits py"
  shows "calc_ms_per_chunk py duration file_size_kb (PStr s) =
           Inr (int (digits_number (concat (replicate (nat \<lceil>q\<rceil>) s))))
       \<and> (\<lceil>q\<rceil> \<noteq> 1 \<and> digits_number s \<noteq> 0 \<longrightarrow>
            int (digits_number (concat (replicate (nat \<lceil>q\<rceil>) s))) \<noteq>
              \<lceil>q\<rceil> * int (digits_number s))
       \<and> fst (audio_splitter_main w (Some infile) (Some tmp_dir) (Some s)) =
           fst (split_file_by_size w infile tmp_dir (PStr s))"
proof -
  let ?n = "nat \<lceil>q\<rceil>"
  have q: "0 < \<lceil>q\<rceil>" using assms(4) by (simp only: zero_less_ceiling)
  then have n: "0 < ?n" by simp
  have q1: "1 \<le> \<lceil>q\<rceil>" using q by simp
  have ne: "concat (replicate ?n s) \<noteq> []"
    using n assms(1) by (cases ?n) simp_all
  have len: "length (concat (replicate ?n s)) = ?n * length s"
    by (rule length_concat_replicate)
  have lim: "int_max_str_digits py = 0 \<or> length (concat (replicate ?n s)) \<le> 640
           \<or> length (concat (replicate ?n s)) \<le> int_max_str_digits py"
    using assms(7) by (simp only: len)
  have rep: "str_repeat py \<lceil>q\<rceil> s = Inr (concat (replicate ?n s))"
    using q1 assms(5,6,1) by (rule str_repeat_fits)
  have ms: "calc_ms_per_chunk py duration file_size_kb (PStr s) =
              Inr (int (digits_number (concat (replicate ?n s))))"
    using int_of_str_digits [OF ne repeat_all_digits [OF assms(2)] lim]
    by (simp add: calc_ms_per_chunk_def assms(3) py_ceil_def int_of_product_def rep)
  have differ: "int (digits_number (concat (replicate ?n s))) \<noteq> \<lceil>q\<rceil> * int (digits_number s)"
    if "\<lceil>q\<rceil> \<noteq> 1" and "digits_number s \<noteq> 0"
  proof -
    from that(1) q have "2 \<le> \<lceil>q\<rceil>" by linarith
    then have "2 \<le> ?n" by linarith
    with assms(1) that(2) have "?n * digits_number s < digits_number (concat (replicate ?n s))"
      by (intro digits_number_repeat_gt) simp_all
    then have "int (?n * digits_number s) < int (digits_number (concat (replicate ?n s)))"
      by (simp only: of_nat_less_iff)
    moreover have "int ?n = \<lceil>q\<rceil>"
      using q by (simp only: int_nat_eq less_imp_le if_True)
    then have "int (?n * digits_number s) = \<lceil>q\<rceil> * int (digits_number s)"
      by (simp only: of_nat_mult)
    ultimately show ?thesis by (simp only: less_imp_neq not_sym)
  qed
  have main: "fst (audio_splitter_main w (Some infile) (Some tmp_dir) (Some s)) =
           fst (split_file_by_size w infile tmp_dir (PStr s))"
    by (simp add: audio_splitter_main_def split: prod.splits sum.splits)
  from ms differ main show ?thesis by blast
qed

theorem calc_ms_per_chunk_str_witness:
  "calc_ms_per_chunk (python demo_world) (Fin 10000) 1000 (PStr ''100'') =
     Inr 100100100100100100100100100100
   \<and> (100100100100100100100100100100::int) \<noteq> 10 * 100"
proof -
  have 1: "''100'' \<noteq> []" by simp
  have 2: "list_all is_digit ''100''" by (simp add: is_digit_def)
  have 3: "float_truediv (Fin 10000) 1000 = Inr (Fin 10)"
    by (simp add: float_truediv_def to_double_numeral)
  have 4: "0 < (10::real)" by simp
  have c: "\<lceil>10::real\<rceil> = 10" by simp
  have n: "nat (10::int) = 10" by simp
  have 5: "nat \<lceil>10::real\<rceil> * length ''100'' \<le> max_str_length (python demo_world)"
    by (simp add: demo_world_def)
  have 6: "max_str_length (python demo_world) < 2 ^ 63" by (simp add: demo_world_def)
  have 7: "int_max_str_digits (python demo_world) = 0 \<or> nat \<lceil>10::real\<rceil> * length ''100'' \<le> 640
           \<or> nat \<lceil>10::real\<rceil> * length ''100'' \<le> int_max_str_digits (python demo_world)"
    by simp
  have r: "concat (replicate 10 ''100'') = ''100100100100100100100100100100''"
    by (simp add: eval_nat_numeral)
  have v: "digits_number ''100'' = 100" by (simp add: digits_number_def digit_val_def)
  have v': "digits_number ''100100100100100100100100100100'' = 100100100100100100100100100100"
    by (simp add: digits_number_def digit_val_def)
  note t = calc_ms_per_chunk_str [OF 1 2 3 4 5 6 7, unfolded c n r v v']
  from t have ms: "calc_ms_per_chunk (python demo_world) (Fin 10000) 1000 (PStr ''100'') =
     Inr (int 100100100100100100100100100100)"
    by (rule conjunct1)
  from t have "(10::int) \<noteq> 1 \<and> (100::nat) \<noteq> 0 \<longrightarrow>
      int 100100100100100100100100100100 \<noteq> 10 * int 100"
    by (rule conjunct2 [THEN conjunct1])
  then have "int 100100100100100100100100100100 \<noteq> 10 * int 100" by simp
  with ms show ?thesis by simp
qed

text \<open>
  The claim as it was stated fails for a \<open>chunk_size\<close> that denotes zero, where the
  repeated digits denote the product, and for a repetition of more digits than the
  interpreter converts, where line 26 raises \<open>ValueError\<close> and no \<open>ms_per_chunk\<close>
  comes about: \<open>100\<close> repeated 1434 times has 4302 digits.
\<close>

theorem calc_ms_per_chunk_str_zero_counterexample:
  "float_truediv (Fin 2000) 1000 = Inr (Fin 2)
   \<and> calc_ms_per_chunk (python demo_world) (Fin 2000) 1000 (PStr ''0'') = Inr 0
   \<and> calc_ms_per_chunk (python demo_world) (Fin 2000) 1000 (PInt 0) = Inr 0
   \<and> float_truediv (Fin 1434000) 1000 = Inr (Fin 1434)
   \<and> calc_ms_per_chunk (python demo_world) (Fin 1434000) 1000 (PStr ''100'') = Inl ValueError"
proof -
  have 1: "float_truediv (Fin 2000) 1000 = Inr (Fin 2)"
    by (simp add: float_truediv_def to_double_numeral)
  have z: "''0'' \<noteq> []" by simp
  have two: "(1::int) \<le> 2" by simp
  have m2: "nat 2 * length ''0'' \<le> max_str_length (python demo_world)"
    by (simp add: demo_world_def)
  have m63: "max_str_length (python demo_world) < 2 ^ 63" by (simp add: demo_world_def)
  have "str_repeat (python demo_world) 2 ''0'' = Inr (concat (replicate (nat 2) ''0''))"
    using two m2 m63 z by (rule str_repeat_fits)
  then have rep2: "str_repeat (python demo_world) 2 ''0'' = Inr ''00''"
    by (simp add: numeral_2_eq_2)
  have v2: "int_of_str (python demo_world) ''00'' = Inr 0"
    by (simp add: int_of_str_def strip_def is_space_def unsigned_of_str_def is_digit_def
        digit_val_def Let_def)
  have c2: "\<lceil>2::real\<rceil> = 2" by simp
  have 2: "calc_ms_per_chunk (python demo_world) (Fin 2000) 1000 (PStr ''0'') = Inr 0"
    by (simp only: calc_ms_per_chunk_def 1 py_ceil_def int_of_product_def rep2 v2 c2
        sum.case pyfloat.case pyval.case)
  have 3: "calc_ms_per_chunk (python demo_world) (Fin 2000) 1000 (PInt 0) = Inr 0"
    by (simp add: calc_ms_per_chunk_def 1 py_ceil_def int_of_product_def)
  have 4: "float_truediv (Fin 1434000) 1000 = Inr (Fin 1434)"
    by (simp add: float_truediv_def to_double_numeral)
  have s: "''100'' \<noteq> []" by simp
  have m: "nat 1434 * length ''100'' \<le> max_str_length (python demo_world)"
    by (simp add: demo_world_def)
  have one: "(1::int) \<le> 1434" by simp
  define t where "t = concat (replicate (nat 1434) ''100'')"
  have rep: "str_repeat (python demo_world) 1434 ''100'' = Inr t"
    unfolding t_def using one m m63 s by (rule str_repeat_fits)
  have d: "list_all is_digit t"
    unfolding t_def by (rule repeat_all_digits) (simp add: is_digit_def)
  have len: "length t = 4302"
    unfolding t_def by (simp only: length_concat_replicate) simp
  have lim: "0 < int_max_str_digits (python demo_world)" "640 < length t"
    "int_max_str_digits (python demo_world) < length t"
    by (simp_all add: len demo_world_def)
  have v: "int_of_str (python demo_world) t = Inl ValueError"
    using d lim by (rule int_of_str_too_long)
  have c: "\<lceil>1434::real\<rceil> = 1434" by simp
  have 5: "calc_ms_per_chunk (python demo_world) (Fin 1434000) 1000 (PStr ''100'') = Inl ValueError"
    by (simp only: calc_ms_per_chunk_def 4 py_ceil_def int_of_product_def rep v c
        sum.case pyfloat.case pyval.case)
  from 1 2 3 4 5 show ?thesis by simp
qed

section \<open>Properties of the commands\<close>

lemma audio_splitter_main_status:
  "snd (snd (audio_splitter_main w infile tmp_dir chunk_size)) \<in> {0, 1, 2}
   \<and> (snd (snd (audio_splitter_main w infile tmp_dir chunk_size)) = 2 \<longleftrightarrow>
        infile = None \<or> tmp_dir = None \<or> chunk_size = None)"
  by (simp add: audio_splitter_main_def split: option.splits prod.splits sum.splits)

lemma audio_details_main_status:
  "snd (snd (audio_details_main w infile)) \<in> {0, 1, 2}
   \<and> (snd (snd (audio_details_main w infile)) = 2 \<longleftrightarrow> infile = None)"
  by (simp add: audio_details_main_def split: option.splits sum.splits)

lemma stt_error_rate_main_status:
  "snd (snd (stt_error_rate_main wer w reference hypothesis)) \<in> {0, 1, 2}
   \<and> (snd (snd (stt_error_rate_main wer w reference hypothesis)) = 2 \<longleftrightarrow>
        reference = None \<or> hypothesis = None)"
  by (simp add: stt_error_rate_main_def split: option.splits sum.splits)

lemma audio_convertor_main_status:
  "snd (snd (audio_convertor_main w infile outfile outfile_format chans)) \<in> {0, 1, 2}
   \<and> (snd (snd (audio_convertor_main w infile outfile outfile_format chans)) = 2 \<longleftrightarrow>
        infile = None \<or> outfile = None \<or> outfile_format = None \<or> isl (parse_channels (python w) chans))"
  by (simp add: audio_convertor_main_def split: option.splits prod.splits sum.splits)

text \<open>
  Claim C9, as amended. Each of the four commands, when every required flag is present
  (and, for the converter, \<open>--channels\<close> is absent or a numeral that \<open>int\<close>
  accepts), exits with status 0
  after printing its results when its function returns (one path per line, one
  \<open>key:value\<close> line per field, the error rate, or nothing for the converter), and, when
  its function raises, prints the message of the error to the standard output and exits
  with status 1. When \<open>parse_args\<close> rejects the command line, the process exits with
  status 2 and prints nothing to the standard output. There is no retry, and no exit
  status other than 0, 1 and 2.
\<close>

theorem commands_exit_status:
  "audio_splitter_main w (Some infile) (Some tmp_dir) (Some chunk_size) =
     (case split_file_by_size w infile tmp_dir (PStr chunk_size) of
        (w', Inr chunks) \<Rightarrow> (w', map Text chunks, 0)
      | (w', Inl e) \<Rightarrow> (w', [Message e], 1))
   \<and> audio_details_main w (Some infile) =
     (case get_audio_details w infile of
        Inr details \<Rightarrow> (w, map (\<lambda>(key, val). KeyValue key val) details, 0)
      | Inl e \<Rightarrow> (w, [Message e], 1))
   \<and> stt_error_rate_main wer w (Some reference) (Some hypothesis) =
     (case snd (compute_wer wer reference hypothesis) of
        Inr error_rate \<Rightarrow> (w, [Value error_rate], 0)
      | Inl e \<Rightarrow> (w, [Message e], 1))
   \<and> audio_convertor_main w (Some infile) (Some outfile) (Some outfile_format) chans =
     (case parse_channels (python w) chans of
        Inl e \<Rightarrow> (w, [], 2)
      | Inr n \<Rightarrow>
          (case convert_audio_file w infile outfile outfile_format n of
             (w', Inr u) \<Rightarrow> (w', [], 0)
           | (w', Inl e) \<Rightarrow> (w', [Message e], 1)))
   \<and> snd (snd (audio_splitter_main w a1 a2 a3)) \<in> {0, 1, 2}
   \<and> (snd (snd (audio_splitter_main w a1 a2 a3)) = 2 \<longleftrightarrow> a1 = None \<or> a2 = None \<or> a3 = None)
   \<and> snd (snd (audio_details_main w b1)) \<in> {0, 1, 2}
   \<and> (snd (snd (audio_details_main w b1)) = 2 \<longleftrightarrow> b1 = None)
   \<and> snd (snd (stt_error_rate_main wer w c1 c2)) \<in> {0, 1, 2}
   \<and> (snd (snd (stt_error_rate_main wer w c1 c2)) = 2 \<longleftrightarrow> c1 = None \<or> c2 = None)
   \<and> snd (snd (audio_convertor_main w d1 d2 d3 d4)) \<in> {0, 1, 2}
   \<and> (snd (snd (audio_convertor_main w d1 d2 d3 d4)) = 2 \<longleftrightarrow>
        d1 = None \<or> d2 = None \<or> d3 = None \<or> isl (parse_channels (python w) d4))"
proof -
  have 1: "audio_splitter_main w (Some infile) (Some tmp_dir) (Some chunk_size) =
     (case split_file_by_size w infile tmp_dir (PStr chunk_size) of
        (w', Inr chunks) \<Rightarrow> (w', map Text chunks, 0)
      | (w', Inl e) \<Rightarrow> (w', [Message e], 1))"
    by (simp add: audio_splitter_main_def)
  have 2: "audio_details_main w (Some infile) =
     (case get_audio_details w infile of
        Inr details \<Rightarrow> (w, map (\<lambda>(key, val). KeyValue key val) details, 0)
      | Inl e \<Rightarrow> (w, [Message e], 1))"
    by (simp add: audio_details_main_def split: sum.splits)
  have 3: "stt_error_rate_main wer w (Some reference) (Some hypothesis) =
     (case snd (compute_wer wer reference hypothesis) of
        Inr error_rate \<Rightarrow> (w, [Value error_rate], 0)
      | Inl e \<Rightarrow> (w, [Message e], 1))"
    by (simp add: stt_error_rate_main_def split: sum.splits)
  have 4: "audio_convertor_main w (Some infile) (Some outfile) (Some outfile_format) chans =
     (case parse_channels (python w) chans of
        Inl e \<Rightarrow> (w, [], 2)
      | Inr n \<Rightarrow>
          (case convert_audio_file w infile outfile outfile_format n of
             (w', Inr u) \<Rightarrow> (w', [], 0)
           | (w', Inl e) \<Rightarrow> (w', [Message e], 1)))"
    by (simp add: audio_convertor_main_def split: sum.splits)
  from 1 2 3 4 audio_splitter_main_status [of w a1 a2 a3] audio_details_main_status [of w b1]
    stt_error_rate_main_status [of wer w c1 c2] audio_convertor_main_status [of w d1 d2 d3 d4]
  show ?thesis by (simp only: simp_thms)
qed

theorem commands_exit_status_witness:
  "stt_error_rate_main (\<lambda>r h. Inl ValueError) demo_world (Some ''a cat'') (Some ''a dog'') =
     (demo_world, [Message ValueError], 1)
   \<and> stt_error_rate_main (\<lambda>r h. Inl ValueError) demo_world (Some ''a cat'') (Some []) =
     (demo_world, [Value (PInt 100)], 0)
   \<and> audio_convertor_main demo_world (Some ''/in/song.mp3'') (Some ''/out/song.wav'') (Some ''wav'')
       (Some [CHR 0xA0, CHR ''1'']) =
     (demo_world\<lparr>written :=
        [\<lparr>export_path = ''/out/song.wav'', export_format = ''wav'', export_slice = None,
          export_source = demo_audio\<lparr>channels := 1\<rparr>\<rparr>]\<rparr>, [], 0)
   \<and> audio_convertor_main demo_world (Some ''/in/song.mp3'') (Some ''/out/song.wav'') (Some ''wav'')
       (Some [CHR 0x1F, CHR ''1'']) =
     (demo_world, [], 2)"
proof -
  have c: "parse_channels (python demo_world) (Some [CHR 0xA0, CHR ''1'']) = Inr (Some 1)"
    by (simp add: parse_channels_def int_of_str_def strip_def is_space_def unsigned_of_str_def
        is_digit_def digit_val_def Let_def)
  have c': "parse_channels (python demo_world) (Some [CHR 0x1F, CHR ''1'']) = Inl ValueError"
    by (simp add: parse_channels_def int_of_str_def strip_def is_space_def unsigned_of_str_def
        is_digit_def digit_val_def Let_def)
  have v: "convert_audio_file demo_world ''/in/song.mp3'' ''/out/song.wav'' ''wav'' (Some 1) =
     (demo_world\<lparr>written :=
        [\<lparr>export_path = ''/out/song.wav'', export_format = ''wav'', export_slice = None,
          export_source = demo_audio\<lparr>channels := 1\<rparr>\<rparr>]\<rparr>, Inr ())"
    by (simp add: convert_audio_file_def demo_world_def)
  have r1: "snd (compute_wer (\<lambda>r h. Inl ValueError) ''a cat'' ''a dog'') = Inl ValueError"
    by (simp add: compute_wer_def)
  have r2: "snd (compute_wer (\<lambda>r h. Inl ValueError) ''a cat'' []) = Inr (PInt 100)"
    by (simp add: compute_wer_def)
  note t1 = commands_exit_status [of demo_world _ _ _ "\<lambda>r h. Inl ValueError" "''a cat''" "''a dog''",
      THEN conjunct2, THEN conjunct2, THEN conjunct1]
  note t2 = commands_exit_status [of demo_world _ _ _ "\<lambda>r h. Inl ValueError" "''a cat''" "[]",
      THEN conjunct2, THEN conjunct2, THEN conjunct1]
  note t3 = commands_exit_status [of demo_world "''/in/song.mp3''" _ _ _ _ _ "''/out/song.wav''"
      "''wav''" "Some [CHR 0xA0, CHR ''1'']", THEN conjunct2, THEN conjunct2, THEN conjunct2,
      THEN conjunct1]
  note t4 = commands_exit_status [of demo_world "''/in/song.mp3''" _ _ _ _ _ "''/out/song.wav''"
      "''wav''" "Some [CHR 0x1F, CHR ''1'']", THEN conjunct2, THEN conjunct2, THEN conjunct2,
      THEN conjunct1]
  from t1 t2 t3 t4 show ?thesis
    by (simp add: r1 r2 c c' v)
qed

theorem commands_exit_status_counterexample:
  "snd (snd (audio_splitter_main demo_world (Some ''/in/song.mp3'') (Some ''/tmp/'') None)) = 2
   \<and> snd (snd (audio_convertor_main demo_world (Some ''/in/song.mp3'') (Some ''/out/song.wav'')
                  (Some ''wav'') (Some ''stereo''))) = 2"
  by (simp add: audio_splitter_main_def audio_convertor_main_def parse_channels_def int_of_str_def
      strip_def is_space_def unsigned_of_str_def is_digit_def)

end
